theory Spec2Isabelle
  imports Main "HOL-Library.AList" "HOL-Library.Char_ord" "HOL-Library.List_Lexorder"
begin

section \<open>Time records (project_data.py, class TimeRecord)\<close>

text \<open>
  Clock readings (\<^verbatim>\<open>datetime.now()\<close>) are integers: microseconds since a fixed instant,
  the resolution of Python's \<^verbatim>\<open>datetime\<close>. The field \<^verbatim>\<open>last_started\<close> is documented as
  an ISO format timestamp or \<^verbatim>\<open>None\<close>; \<^verbatim>\<open>isoformat\<close> and \<^verbatim>\<open>fromisoformat\<close> are inverse
  to each other on naive timestamps, so the field holds the instant itself. A stored
  timestamp is a non-empty string, hence truthy; only \<^verbatim>\<open>None\<close> is falsy.
\<close>

record TimeRecord =
  date :: string
  total_seconds :: int
  last_started :: "int option"
  is_running :: bool
  sub_activity_seconds :: "(string \<times> int) list"

text \<open>\<^verbatim>\<open>TimeRecord(date=today)\<close>: the dataclass defaults.\<close>

definition new_record :: "string \<Rightarrow> TimeRecord" where
  "new_record d =
     \<lparr>date = d, total_seconds = 0, last_started = None, is_running = False,
      sub_activity_seconds = []\<rparr>"

text \<open>
  \<^verbatim>\<open>round(elapsed)\<close> where \<^verbatim>\<open>elapsed = (now - start).total_seconds()\<close>. The
  difference of two clock readings is a whole number of microseconds, \<^verbatim>\<open>total_seconds()\<close>
  is the double nearest to that number divided by \<open>10\<^sup>6\<close> (a tie going to the even
  mantissa), and \<^verbatim>\<open>round\<close> takes that double to the nearest integer, a tie going to the
  even one. \<open>round_half_even n d\<close> is the integer nearest to \<open>n / d\<close> for positive \<open>d\<close>;
  \<open>binade_shift a\<close> is the power of two that scales \<open>a / 10\<^sup>6\<close> to a mantissa of 53 bits,
  so that the double is \<open>m / 2\<^sup>s\<close> below. Every difference of two \<^verbatim>\<open>datetime\<close> values is
  inside the range this covers.
\<close>

definition round_half_even :: "int \<Rightarrow> int \<Rightarrow> int" where
  "round_half_even n d =
     (let q = n div d; r = n mod d
      in if 2 * r < d then q
         else if d < 2 * r then q + 1
         else if even q then q else q + 1)"

function binade_shift :: "int \<Rightarrow> nat" where
  "binade_shift a =
     (if 0 < a \<and> a < 4503599627370496000000 then Suc (binade_shift (2 * a)) else 0)"
  by pat_completeness auto
termination
  by (relation "measure (\<lambda>a. nat (4503599627370496000000 - a))") auto

declare binade_shift.simps [simp del]

definition py_round :: "int \<Rightarrow> int" where
  "py_round us =
     (if us = 0 then 0
      else
        (let s = binade_shift \<bar>us\<bar>;
             m = round_half_even (\<bar>us\<bar> * 2 ^ s) 1000000;
             n = round_half_even m (2 ^ s)
         in if us < 0 then - n else n))"

definition add_time :: "int \<Rightarrow> TimeRecord \<Rightarrow> TimeRecord" where
  "add_time seconds r = r\<lparr>total_seconds := total_seconds r + seconds\<rparr>"

definition start_timing :: "int \<Rightarrow> TimeRecord \<Rightarrow> TimeRecord" where
  "start_timing now r = r\<lparr>is_running := True, last_started := Some now\<rparr>"

definition stop_timing :: "int \<Rightarrow> TimeRecord \<Rightarrow> TimeRecord" where
  "stop_timing now r =
     (case last_started r of
        Some start_time \<Rightarrow>
          if is_running r then
            (let elapsed = now - start_time;
                 elapsed_seconds = max 1 (py_round elapsed)
             in (add_time elapsed_seconds r)\<lparr>is_running := False, last_started := None\<rparr>)
          else r
      | None \<Rightarrow> r)"

definition get_current_total_seconds :: "int \<Rightarrow> TimeRecord \<Rightarrow> int" where
  "get_current_total_seconds now r =
     (case last_started r of
        Some start_time \<Rightarrow>
          if is_running r then total_seconds r + max 1 (py_round (now - start_time))
          else total_seconds r
      | None \<Rightarrow> total_seconds r)"

subsection \<open>Sequences of calls on one record\<close>

datatype call = Start_timing int | Stop_timing int

fun apply_call :: "call \<Rightarrow> TimeRecord \<Rightarrow> TimeRecord" where
  "apply_call (Start_timing now) r = start_timing now r"
| "apply_call (Stop_timing now) r = stop_timing now r"

fun run_calls :: "call list \<Rightarrow> TimeRecord \<Rightarrow> TimeRecord" where
  "run_calls [] r = r"
| "run_calls (c # cs) r = run_calls cs (apply_call c r)"

text \<open>
  The specification's reading of a call sequence: \<^verbatim>\<open>start_timing\<close> opens a run unless
  the record is already running, in which case it is a no-op, and \<^verbatim>\<open>stop_timing\<close>
  completes the open run. The first argument is the start of the run that is open at the
  beginning, if any; the result lists the completed runs as (start, stop) pairs.
\<close>

fun spec_completed_runs :: "int option \<Rightarrow> call list \<Rightarrow> (int \<times> int) list" where
  "spec_completed_runs running [] = []"
| "spec_completed_runs None (Start_timing now # cs) = spec_completed_runs (Some now) cs"
| "spec_completed_runs (Some t) (Start_timing now # cs) = spec_completed_runs (Some t) cs"
| "spec_completed_runs None (Stop_timing now # cs) = spec_completed_runs None cs"
| "spec_completed_runs (Some t) (Stop_timing now # cs) = (t, now) # spec_completed_runs None cs"

text \<open>
  The reading under which a \<^verbatim>\<open>start_timing\<close> on a running record starts the run
  afresh, so that a completed run begins at the latest \<^verbatim>\<open>start_timing\<close> before its
  \<^verbatim>\<open>stop_timing\<close>.
\<close>

fun completed_runs :: "int option \<Rightarrow> call list \<Rightarrow> (int \<times> int) list" where
  "completed_runs running [] = []"
| "completed_runs running (Start_timing now # cs) = completed_runs (Some now) cs"
| "completed_runs None (Stop_timing now # cs) = completed_runs None cs"
| "completed_runs (Some t) (Stop_timing now # cs) = (t, now) # completed_runs None cs"

text \<open>The call sequences in which no \<^verbatim>\<open>start_timing\<close> falls on a running record.\<close>

fun no_restart :: "int option \<Rightarrow> call list \<Rightarrow> bool" where
  "no_restart running [] = True"
| "no_restart running (Start_timing now # cs) = (running = None \<and> no_restart (Some now) cs)"
| "no_restart running (Stop_timing now # cs) = no_restart None cs"

text \<open>The start of the run a record is in: \<^verbatim>\<open>is_running and last_started\<close>.\<close>

definition running_since :: "TimeRecord \<Rightarrow> int option" where
  "running_since r = (if is_running r then last_started r else None)"

definition run_seconds :: "int \<times> int \<Rightarrow> int" where
  "run_seconds run = max 1 (py_round (snd run - fst run))"

section \<open>Sub-activities and projects (classes SubActivity and Project)\<close>

text \<open>
  A \<^verbatim>\<open>time_records\<close> dictionary is an association list in insertion order; \<open>map_of\<close> is
  the lookup and \<open>AList.update\<close> the assignment to a key (in place when the key is
  present, at the end otherwise). The calendar date \<^verbatim>\<open>date.today().isoformat()\<close> is the
  argument \<open>today\<close>; the dates and clock readings taken within one call of a Store
  operation are taken to be the same. The fields \<^verbatim>\<open>name\<close>, \<^verbatim>\<open>alias\<close> and
  \<^verbatim>\<open>time_records\<close> of a SubActivity carry the prefix \<open>sub_\<close>, and the field
  \<^verbatim>\<open>alias\<close> of a Project is \<open>project_alias\<close>, since the fields of all records
  share one name space.
\<close>

type_synonym records = "(string \<times> TimeRecord) list"

record SubActivity =
  sub_name :: string
  sub_alias :: string
  sub_time_records :: records

record Project =
  name :: string
  dz_number :: string
  project_alias :: string
  sub_activities :: "SubActivity list"
  time_records :: records

text \<open>
  \<^verbatim>\<open>get_today_record\<close> is the same method in both classes: it returns today's record
  and inserts an empty one first when the key is absent. The model returns the record
  together with the dictionary.
\<close>

definition get_today_record :: "string \<Rightarrow> records \<Rightarrow> TimeRecord \<times> records" where
  "get_today_record today recs =
     (case map_of recs today of
        None \<Rightarrow> (new_record today, recs @ [(today, new_record today)])
      | Some r \<Rightarrow> (r, recs))"

definition is_running_today :: "string \<Rightarrow> records \<Rightarrow> bool" where
  "is_running_today today recs = is_running (fst (get_today_record today recs))"

definition get_sub_activity :: "string \<Rightarrow> Project \<Rightarrow> SubActivity option" where
  "get_sub_activity a p = find (\<lambda>sub. sub_alias sub = a) (sub_activities p)"

definition add_sub_activity :: "string \<Rightarrow> string \<Rightarrow> Project \<Rightarrow> SubActivity \<times> Project" where
  "add_sub_activity nm a p =
     (let sub_activity = \<lparr>sub_name = nm, sub_alias = a, sub_time_records = []\<rparr>
      in (sub_activity, p\<lparr>sub_activities := sub_activities p @ [sub_activity]\<rparr>))"

fun remove_first :: "('a \<Rightarrow> bool) \<Rightarrow> 'a list \<Rightarrow> 'a list" where
  "remove_first P [] = []"
| "remove_first P (x # xs) = (if P x then xs else x # remove_first P xs)"

definition remove_sub_activity :: "string \<Rightarrow> Project \<Rightarrow> bool \<times> Project" where
  "remove_sub_activity a p =
     (if list_ex (\<lambda>sub. sub_alias sub = a) (sub_activities p)
      then (True, p\<lparr>sub_activities := remove_first (\<lambda>sub. sub_alias sub = a) (sub_activities p)\<rparr>)
      else (False, p))"

section \<open>The store (class ProjectDataManager)\<close>

record Config =
  backup_enabled :: bool
  max_backups :: int
  environment :: string

record Store =
  projects :: "Project list"
  current_project_alias :: "string option"
  current_sub_activity_alias :: "string option"
  auto_save_interval :: int
  last_save_time :: int
  data_file_stem :: string
  config :: Config

text \<open>
  A lookup returns a reference to the first element with the alias, and the caller
  mutates it through that reference: \<open>update_first\<close> applies the mutation to that element
  of the list.
\<close>

fun update_first :: "('a \<Rightarrow> bool) \<Rightarrow> ('a \<Rightarrow> 'a) \<Rightarrow> 'a list \<Rightarrow> 'a list" where
  "update_first P f [] = []"
| "update_first P f (x # xs) = (if P x then f x # xs else x # update_first P f xs)"

definition get_project :: "string \<Rightarrow> Store \<Rightarrow> Project option" where
  "get_project a s = find (\<lambda>proj. project_alias proj = a) (projects s)"

text \<open>\<^verbatim>\<open>if self.current_project_alias:\<close> is false for \<^verbatim>\<open>None\<close> and for the empty string.\<close>

definition get_current_project :: "Store \<Rightarrow> Project option" where
  "get_current_project s =
     (case current_project_alias s of
        None \<Rightarrow> None
      | Some a \<Rightarrow> if a = [] then None else get_project a s)"

definition get_current_sub_activity :: "Store \<Rightarrow> SubActivity option" where
  "get_current_sub_activity s =
     (case get_current_project s of
        None \<Rightarrow> None
      | Some project \<Rightarrow>
          (case current_sub_activity_alias s of
             None \<Rightarrow> None
           | Some b \<Rightarrow> if b = [] then None else get_sub_activity b project))"

definition set_current_project :: "string \<Rightarrow> Store \<Rightarrow> bool \<times> Store" where
  "set_current_project a s =
     (case get_project a s of
        Some proj \<Rightarrow> (True, s\<lparr>current_project_alias := Some a, current_sub_activity_alias := None\<rparr>)
      | None \<Rightarrow> (False, s))"

definition set_current_sub_activity :: "string option \<Rightarrow> Store \<Rightarrow> bool \<times> Store" where
  "set_current_sub_activity a s =
     (case a of
        None \<Rightarrow> (True, s\<lparr>current_sub_activity_alias := None\<rparr>)
      | Some b \<Rightarrow>
          (case get_current_project s of
             None \<Rightarrow> (False, s)
           | Some project \<Rightarrow>
               (case get_sub_activity b project of
                  Some sub \<Rightarrow> (True, s\<lparr>current_sub_activity_alias := Some b\<rparr>)
                | None \<Rightarrow>
                    if b \<in> set [''sub1'', ''sub2'', ''sub3'', ''dev'', ''test'', ''debug'']
                    then (True,
                          s\<lparr>projects :=
                               update_first (\<lambda>proj. project_alias proj = project_alias project)
                                 (\<lambda>proj. snd (add_sub_activity (''Sub Activity '' @ b) b proj))
                                 (projects s),
                            current_sub_activity_alias := Some b\<rparr>)
                    else (False, s))))"

subsection \<open>Timer orchestration\<close>

text \<open>
  The two statements of the loop body of \<^verbatim>\<open>stop_all_timers\<close>, for one dictionary:
  \<^verbatim>\<open>rec = x.get_today_record()\<close> and \<^verbatim>\<open>if rec.is_running: rec.stop_timing()\<close>.
\<close>

definition stop_today_record :: "int \<Rightarrow> string \<Rightarrow> records \<Rightarrow> records" where
  "stop_today_record now today recs =
     (case get_today_record today recs of
        (today_record, recs') \<Rightarrow>
          if is_running today_record
          then AList.update today (stop_timing now today_record) recs'
          else recs')"

text \<open>\<^verbatim>\<open>x.get_today_record().start_timing()\<close> for one dictionary.\<close>

definition start_today_record :: "int \<Rightarrow> string \<Rightarrow> records \<Rightarrow> records" where
  "start_today_record now today recs =
     (case get_today_record today recs of
        (today_record, recs') \<Rightarrow> AList.update today (start_timing now today_record) recs')"

definition stop_sub_activity :: "int \<Rightarrow> string \<Rightarrow> SubActivity \<Rightarrow> SubActivity" where
  "stop_sub_activity now today sub =
     sub\<lparr>sub_time_records := stop_today_record now today (sub_time_records sub)\<rparr>"

definition stop_project :: "int \<Rightarrow> string \<Rightarrow> Project \<Rightarrow> Project" where
  "stop_project now today proj =
     proj\<lparr>time_records := stop_today_record now today (time_records proj),
          sub_activities := map (stop_sub_activity now today) (sub_activities proj)\<rparr>"

definition stop_all_timers :: "int \<Rightarrow> string \<Rightarrow> Store \<Rightarrow> Store" where
  "stop_all_timers now today s = s\<lparr>projects := map (stop_project now today) (projects s)\<rparr>"

definition start_sub_activity :: "int \<Rightarrow> string \<Rightarrow> SubActivity \<Rightarrow> SubActivity" where
  "start_sub_activity now today sub =
     sub\<lparr>sub_time_records := start_today_record now today (sub_time_records sub)\<rparr>"

text \<open>
  The part of \<^verbatim>\<open>start_current_timer\<close> after the project has been found: the project's
  own record of today is started, and the record of the selected sub-activity when the
  alias is truthy and names a sub-activity of the project.
\<close>

definition start_project :: "int \<Rightarrow> string \<Rightarrow> string option \<Rightarrow> Project \<Rightarrow> Project" where
  "start_project now today sub_alias_opt proj =
     (let proj1 = proj\<lparr>time_records := start_today_record now today (time_records proj)\<rparr>
      in case sub_alias_opt of
           None \<Rightarrow> proj1
         | Some b \<Rightarrow>
             if b = [] then proj1
             else proj1\<lparr>sub_activities :=
                          update_first (\<lambda>sub. sub_alias sub = b) (start_sub_activity now today)
                            (sub_activities proj1)\<rparr>)"

definition start_current_timer :: "int \<Rightarrow> string \<Rightarrow> Store \<Rightarrow> bool \<times> Store" where
  "start_current_timer now today s =
     (let s1 = stop_all_timers now today s
      in case get_current_project s1 of
           None \<Rightarrow> (False, s1)
         | Some project \<Rightarrow>
             (True,
              s1\<lparr>projects :=
                    update_first (\<lambda>proj. project_alias proj = project_alias project)
                      (start_project now today (current_sub_activity_alias s1))
                      (projects s1)\<rparr>))"

subsection \<open>Scanning the graph for running records\<close>

definition running_records :: "records \<Rightarrow> nat" where
  "running_records recs = length (filter (\<lambda>kr. is_running (snd kr)) recs)"

definition running_in_subs :: "Project \<Rightarrow> nat" where
  "running_in_subs proj = sum_list (map (\<lambda>sub. running_records (sub_time_records sub)) (sub_activities proj))"

definition project_records_running :: "Store \<Rightarrow> nat" where
  "project_records_running s = sum_list (map (\<lambda>proj. running_records (time_records proj)) (projects s))"

definition sub_activity_records_running :: "Store \<Rightarrow> nat" where
  "sub_activity_records_running s = sum_list (map running_in_subs (projects s))"

definition running_count :: "Store \<Rightarrow> nat" where
  "running_count s = project_records_running s + sub_activity_records_running s"

section \<open>Persistence (load_projects, save_projects and the backups)\<close>

subsection \<open>The data file\<close>

text \<open>
  What \<^verbatim>\<open>json.load\<close> makes of the data file. \<open>Garbage\<close> is a file that is not valid JSON
  (\<^verbatim>\<open>json.JSONDecodeError\<close>). A \<open>Document\<close> is a JSON object whose values have the types
  of the file format; a key that may be absent is an option, \<open>None\<close> standing for the
  absent key (and, for the two selection aliases, also for \<^verbatim>\<open>null\<close>, which
  \<^verbatim>\<open>data.get\<close> does not tell apart). A record object is held as the \<open>TimeRecord\<close> its
  keys describe, an absent key of it standing at the dataclass default.
\<close>

record sub_data =
  sd_name :: "string option"
  sd_alias :: "string option"
  sd_time_records :: "records option"

record project_data =
  pd_name :: "string option"
  pd_dz_number :: "string option"
  pd_alias :: "string option"
  pd_sub_activities :: "sub_data list option"
  pd_time_records :: "records option"

record document =
  doc_projects :: "project_data list option"
  doc_current_project_alias :: "string option"
  doc_current_sub_activity_alias :: "string option"
  doc_last_saved :: "int option"
  doc_environment :: "string option"

datatype file_content = Garbage | Document document

text \<open>
  The data file of the store (\<open>None\<close> when it does not exist) and the backup directory,
  file names with their contents. \<open>fs_glob pattern file_name\<close> tells whether
  \<^verbatim>\<open>Path.glob\<close> takes the file name to match the pattern: the matching is the library's
  and the platform's (which characters of a pattern are wildcards, whether the case of
  letters counts) and is a parameter here. \<open>fs_writes\<close> counts how often the data file
  has been opened for writing, so that the number of writes of a save can be stated.
\<close>

record FileSystem =
  fs_data_file :: "file_content option"
  fs_backups :: "(string \<times> file_content) list"
  fs_glob :: "string \<Rightarrow> string \<Rightarrow> bool"
  fs_writes :: nat

datatype error = TypeError

subsection \<open>Loading\<close>

text \<open>
  The \<^verbatim>\<open>__post_init__\<close> conversion of a \<^verbatim>\<open>time_records\<close> dictionary: every record is
  built with \<^verbatim>\<open>date\<close> set to its key.
\<close>

definition records_of_data :: "records \<Rightarrow> records" where
  "records_of_data recs = map (\<lambda>(date_str, record_data). (date_str, record_data\<lparr>date := date_str\<rparr>)) recs"

text \<open>
  \<^verbatim>\<open>SubActivity(**sub_data)\<close> and \<^verbatim>\<open>Project(**proj_data)\<close>: the dataclass constructor
  raises \<^verbatim>\<open>TypeError\<close> when a field without a default is missing.
\<close>

definition sub_activity_of_data :: "sub_data \<Rightarrow> error + SubActivity" where
  "sub_activity_of_data d =
     (case (sd_name d, sd_alias d, sd_time_records d) of
        (Some n, Some a, Some recs) \<Rightarrow>
          Inr \<lparr>sub_name = n, sub_alias = a, sub_time_records = records_of_data recs\<rparr>
      | _ \<Rightarrow> Inl TypeError)"

text \<open>A list comprehension: the first element that raises ends it.\<close>

fun build_all :: "('a \<Rightarrow> error + 'b) \<Rightarrow> 'a list \<Rightarrow> error + 'b list" where
  "build_all f [] = Inr []"
| "build_all f (x # xs) =
     (case f x of
        Inl e \<Rightarrow> Inl e
      | Inr y \<Rightarrow> (case build_all f xs of Inl e \<Rightarrow> Inl e | Inr ys \<Rightarrow> Inr (y # ys)))"

definition project_of_data :: "project_data \<Rightarrow> error + Project" where
  "project_of_data d =
     (case (pd_name d, pd_dz_number d, pd_alias d, pd_sub_activities d, pd_time_records d) of
        (Some n, Some dz, Some a, Some subs, Some recs) \<Rightarrow>
          (case build_all sub_activity_of_data subs of
             Inl e \<Rightarrow> Inl e
           | Inr sub_list \<Rightarrow>
               Inr \<lparr>name = n, dz_number = dz, project_alias = a, sub_activities = sub_list,
                    time_records = records_of_data recs\<rparr>)
      | _ \<Rightarrow> Inl TypeError)"

text \<open>
  \<^verbatim>\<open>load_projects\<close>. The \<^verbatim>\<open>except\<close> clause catches \<^verbatim>\<open>FileNotFoundError\<close>,
  \<^verbatim>\<open>json.JSONDecodeError\<close>, \<^verbatim>\<open>KeyError\<close> and \<^verbatim>\<open>ValueError\<close>; a \<^verbatim>\<open>TypeError\<close> leaves the
  method. The result is the value returned or the exception raised, with the store.
\<close>

definition load_projects :: "FileSystem \<Rightarrow> Store \<Rightarrow> (error + bool) \<times> Store" where
  "load_projects fs s =
     (case fs_data_file fs of
        None \<Rightarrow> (Inr False, s)
      | Some Garbage \<Rightarrow> (Inr False, s)
      | Some (Document data) \<Rightarrow>
          (case doc_projects data of
             None \<Rightarrow>
               (Inr True,
                s\<lparr>current_project_alias := doc_current_project_alias data,
                  current_sub_activity_alias := doc_current_sub_activity_alias data\<rparr>)
           | Some proj_datas \<Rightarrow>
               (case build_all project_of_data proj_datas of
                  Inl e \<Rightarrow> (Inl e, s)
                | Inr projs \<Rightarrow>
                    (Inr True,
                     s\<lparr>projects := projs,
                       current_project_alias := doc_current_project_alias data,
                       current_sub_activity_alias := doc_current_sub_activity_alias data\<rparr>))))"

text \<open>
  \<^verbatim>\<open>ProjectDataManager.__init__\<close> at clock reading \<open>now\<close>: no projects, no selection,
  and a last save time one second more than the interval in the past.
\<close>

definition new_store :: "string \<Rightarrow> Config \<Rightarrow> int \<Rightarrow> int \<Rightarrow> Store" where
  "new_store stem cfg interval now =
     \<lparr>projects = [], current_project_alias = None, current_sub_activity_alias = None,
      auto_save_interval = interval, last_save_time = now - (interval + 1) * 1000000,
      data_file_stem = stem, config = cfg\<rparr>"

subsection \<open>Saving\<close>

definition sub_activity_to_dict :: "SubActivity \<Rightarrow> sub_data" where
  "sub_activity_to_dict sub =
     \<lparr>sd_name = Some (sub_name sub), sd_alias = Some (sub_alias sub),
      sd_time_records = Some (sub_time_records sub)\<rparr>"

definition project_to_dict :: "Project \<Rightarrow> project_data" where
  "project_to_dict project =
     \<lparr>pd_name = Some (name project), pd_dz_number = Some (dz_number project),
      pd_alias = Some (project_alias project),
      pd_sub_activities = Some (map sub_activity_to_dict (sub_activities project)),
      pd_time_records = Some (time_records project)\<rparr>"

text \<open>The dictionary \<^verbatim>\<open>data\<close> that \<^verbatim>\<open>save_projects\<close> serialises.\<close>

definition document_of_store :: "int \<Rightarrow> Store \<Rightarrow> document" where
  "document_of_store now s =
     \<lparr>doc_projects = Some (map project_to_dict (projects s)),
      doc_current_project_alias = current_project_alias s,
      doc_current_sub_activity_alias = current_sub_activity_alias s,
      doc_last_saved = Some now,
      doc_environment = Some (environment (config s))\<rparr>"

text \<open>
  What the world does at one call of \<^verbatim>\<open>save_projects\<close>: the timestamp that
  \<^verbatim>\<open>strftime("%Y%m%d_%H%M%S")\<close> yields in \<^verbatim>\<open>_create_backup\<close>, and which of the file
  operations fail with an \<^verbatim>\<open>OSError\<close>. \<open>Open_fails\<close> is a failure before the data file is
  touched, \<open>Dump_fails\<close> one after it has been truncated.
\<close>

datatype write_fault = No_fault | Open_fails | Dump_fails

record io =
  io_stamp :: string
  io_copy_fails :: bool
  io_undeletable :: "string list"
  io_mkdir_fails :: bool
  io_write :: write_fault

text \<open>
  The backup name \<^verbatim>\<open>f"{stem}_backup_{timestamp}.json"\<close> and the pattern
  \<^verbatim>\<open>f"{stem}_backup_*.json"\<close>.
\<close>

definition backup_name :: "string \<Rightarrow> string \<Rightarrow> string" where
  "backup_name stem timestamp = stem @ ''_backup_'' @ timestamp @ ''.json''"

definition backup_pattern :: "string \<Rightarrow> string" where
  "backup_pattern stem = stem @ ''_backup_*.json''"

text \<open>
  \<^verbatim>\<open>sorted(backup_dir.glob(pattern))\<close>: the file names of the backup directory that
  match the pattern, in the order of their paths, which for the files of one directory
  is the lexicographic order of the names, character by character as for a
  \<^verbatim>\<open>PosixPath\<close>.
\<close>

definition backup_files :: "Store \<Rightarrow> FileSystem \<Rightarrow> string list" where
  "backup_files s fs =
     sort (filter (fs_glob fs (backup_pattern (data_file_stem s))) (map fst (fs_backups fs)))"

text \<open>
  The slice \<^verbatim>\<open>xs[:j]\<close>: a negative bound counts from the end, and \<^verbatim>\<open>xs[:-0]\<close> is
  \<^verbatim>\<open>xs[:0]\<close>, the empty list.
\<close>

definition py_slice_upto :: "int \<Rightarrow> 'a list \<Rightarrow> 'a list" where
  "py_slice_upto j xs = (if j < 0 then take (length xs - nat (- j)) xs else take (nat j) xs)"

text \<open>
  \<^verbatim>\<open>_cleanup_old_backups\<close> and \<^verbatim>\<open>_create_backup\<close> are \<open>cleanup_old_backups\<close> and
  \<open>create_backup\<close> below. The loop over the old backups: \<^verbatim>\<open>unlink\<close> each in turn; an
  \<^verbatim>\<open>OSError\<close> leaves the loop (it is caught and reported by
  \<^verbatim>\<open>_cleanup_old_backups\<close>).
\<close>

fun unlink_each :: "string list \<Rightarrow> string list \<Rightarrow> (string \<times> file_content) list
    \<Rightarrow> (string \<times> file_content) list" where
  "unlink_each undeletable [] files = files"
| "unlink_each undeletable (old_backup # rest) files =
     (if old_backup \<in> set undeletable then files
      else unlink_each undeletable rest (AList.delete old_backup files))"

definition cleanup_old_backups :: "io \<Rightarrow> Store \<Rightarrow> FileSystem \<Rightarrow> FileSystem" where
  "cleanup_old_backups w s fs =
     (let backup_files = backup_files s fs;
          max_backups = max_backups (config s)
      in if int (length backup_files) > max_backups
         then fs\<lparr>fs_backups :=
                  unlink_each (io_undeletable w) (py_slice_upto (- max_backups) backup_files)
                    (fs_backups fs)\<rparr>
         else fs)"

text \<open>
  \<^verbatim>\<open>_create_backup\<close>: copy the data file under the backup name, then clean up. A failing
  copy is caught and reported, and the cleanup is skipped.
\<close>

definition create_backup :: "io \<Rightarrow> Store \<Rightarrow> FileSystem \<Rightarrow> FileSystem" where
  "create_backup w s fs =
     (case fs_data_file fs of
        None \<Rightarrow> fs
      | Some content \<Rightarrow>
          if io_copy_fails w then fs
          else cleanup_old_backups w s
                 (fs\<lparr>fs_backups :=
                       AList.update (backup_name (data_file_stem s) (io_stamp w)) content
                         (fs_backups fs)\<rparr>))"

text \<open>
  \<^verbatim>\<open>delta.total_seconds() < seconds\<close> for a difference \<open>delta\<close> of \<open>us\<close> microseconds and
  an integer \<open>seconds\<close>: \<^verbatim>\<open>total_seconds()\<close> is the double nearest to \<open>us / 10\<^sup>6\<close>, which
  is \<open>m / 2\<^sup>s\<close> with the sign of \<open>us\<close>, as in \<open>py_round\<close>, and Python compares a float with
  an integer exactly.
\<close>

definition total_seconds_less :: "int \<Rightarrow> int \<Rightarrow> bool" where
  "total_seconds_less us seconds =
     (let s = binade_shift \<bar>us\<bar>;
          m = round_half_even (\<bar>us\<bar> * 2 ^ s) 1000000
      in (if us < 0 then - m else m) < seconds * 2 ^ s)"

text \<open>
  \<^verbatim>\<open>save_projects\<close>. The interval is in seconds, the clock in microseconds. The result
  is the value returned, the store and the file system.
\<close>

definition save_projects :: "bool \<Rightarrow> int \<Rightarrow> io \<Rightarrow> Store \<Rightarrow> FileSystem \<Rightarrow> bool \<times> Store \<times> FileSystem" where
  "save_projects force now w s fs =
     (if \<not> force \<and> total_seconds_less (now - last_save_time s) (auto_save_interval s)
      then (False, s, fs)
      else
        (let fs1 = (if backup_enabled (config s) \<and> fs_data_file fs \<noteq> None
                    then create_backup w s fs else fs)
         in if io_mkdir_fails w then (False, s, fs1)
            else case io_write w of
                   Open_fails \<Rightarrow> (False, s, fs1)
                 | Dump_fails \<Rightarrow>
                     (False, s,
                      fs1\<lparr>fs_data_file := Some Garbage, fs_writes := fs_writes fs1 + 1\<rparr>)
                 | No_fault \<Rightarrow>
                     (True, s\<lparr>last_save_time := now\<rparr>,
                      fs1\<lparr>fs_data_file := Some (Document (document_of_store now s)),
                          fs_writes := fs_writes fs1 + 1\<rparr>)))"

text \<open>Forced saves one after the other, each with its clock reading and its world.\<close>

fun save_all :: "(int \<times> io) list \<Rightarrow> Store \<Rightarrow> FileSystem \<Rightarrow> Store \<times> FileSystem" where
  "save_all [] s fs = (s, fs)"
| "save_all ((now, w) # rest) s fs =
     (case save_projects True now w s fs of (saved, s', fs') \<Rightarrow> save_all rest s' fs')"

text \<open>A world in which no file operation fails.\<close>

definition no_faults :: "io \<Rightarrow> bool" where
  "no_faults w =
     (\<not> io_copy_fails w \<and> io_undeletable w = [] \<and> \<not> io_mkdir_fails w \<and> io_write w = No_fault)"

section \<open>Views of the graph used to state the properties\<close>

text \<open>What \<^verbatim>\<open>stop_all_timers\<close> leaves under today's key of one dictionary.\<close>

definition stopped_today :: "int \<Rightarrow> string \<Rightarrow> records \<Rightarrow> TimeRecord" where
  "stopped_today now today recs =
     (case map_of recs today of
        None \<Rightarrow> new_record today
      | Some r \<Rightarrow> if is_running r then stop_timing now r else r)"

text \<open>The entries of a dictionary under every key but today's, in their order.\<close>

definition other_dates :: "string \<Rightarrow> records \<Rightarrow> records" where
  "other_dates today recs = filter (\<lambda>kr. fst kr \<noteq> today) recs"

definition sub_other_dates :: "string \<Rightarrow> SubActivity \<Rightarrow> SubActivity" where
  "sub_other_dates today sub = sub\<lparr>sub_time_records := other_dates today (sub_time_records sub)\<rparr>"

definition project_other_dates :: "string \<Rightarrow> Project \<Rightarrow> Project" where
  "project_other_dates today proj =
     proj\<lparr>time_records := other_dates today (time_records proj),
          sub_activities := map (sub_other_dates today) (sub_activities proj)\<rparr>"

text \<open>The whole store with today's entries taken out of every dictionary.\<close>

definition store_other_dates :: "string \<Rightarrow> Store \<Rightarrow> Store" where
  "store_other_dates today s = s\<lparr>projects := map (project_other_dates today) (projects s)\<rparr>"

text \<open>Today's record of every project, paired with today's records of its sub-activities.\<close>

definition today_records :: "string \<Rightarrow> Store \<Rightarrow> (TimeRecord option \<times> TimeRecord option list) list" where
  "today_records today s =
     map (\<lambda>proj. (map_of (time_records proj) today,
                  map (\<lambda>sub. map_of (sub_time_records sub) today) (sub_activities proj)))
       (projects s)"

text \<open>
  A dictionary has one entry per key. \<open>records_ok\<close> adds that every record already
  running is today's and has \<^verbatim>\<open>last_started\<close> set, which is the state the Store's own
  start and stop operations leave within one calendar day.
\<close>

definition records_ok :: "string \<Rightarrow> records \<Rightarrow> bool" where
  "records_ok today recs =
     (distinct (map fst recs) \<and>
      list_all (\<lambda>kr. is_running (snd kr) \<longrightarrow> fst kr = today \<and> last_started (snd kr) \<noteq> None) recs)"

definition store_ok :: "string \<Rightarrow> Store \<Rightarrow> bool" where
  "store_ok today s =
     list_all (\<lambda>proj. records_ok today (time_records proj) \<and>
                list_all (\<lambda>sub. records_ok today (sub_time_records sub)) (sub_activities proj))
       (projects s)"

text \<open>The last \<open>k\<close> elements of a list: of a list of backups in sorted order, the newest.\<close>

definition newest :: "nat \<Rightarrow> 'a list \<Rightarrow> 'a list" where
  "newest k xs = drop (length xs - k) xs"

text \<open>The backup timestamps of a sequence of saves.\<close>

definition stamps_of :: "(int \<times> io) list \<Rightarrow> string list" where
  "stamps_of calls = map (\<lambda>call. io_stamp (snd call)) calls"

section \<open>Example states\<close>

definition config0 :: Config where
  "config0 = \<lparr>backup_enabled = True, max_backups = 10, environment = ''test''\<rparr>"

text \<open>The project \<^verbatim>\<open>add_project("Alpha", "DZ1", "alpha")\<close> creates.\<close>

definition alpha :: Project where
  "alpha = \<lparr>name = ''Alpha'', dz_number = ''DZ1'', project_alias = ''alpha'',
            sub_activities = [], time_records = []\<rparr>"

text \<open>A store as constructed at clock reading 0, after that \<^verbatim>\<open>add_project\<close>.\<close>

definition store_alpha :: Store where
  "store_alpha =
     \<lparr>projects = [alpha], current_project_alias = None, current_sub_activity_alias = None,
      auto_save_interval = 300, last_save_time = - 301000000, data_file_stem = ''data'',
      config = config0\<rparr>"

text \<open>
  A store as loaded from a file written while timers were running: the project has a
  running record under yesterday's key and one under today's, its sub-activity one under
  yesterday's; nothing is selected.
\<close>

definition yesterday_running :: TimeRecord where
  "yesterday_running =
     \<lparr>date = ''2025-08-12'', total_seconds = 100, last_started = Some 0, is_running = True,
      sub_activity_seconds = []\<rparr>"

definition today_running :: TimeRecord where
  "today_running =
     \<lparr>date = ''2025-08-13'', total_seconds = 7, last_started = Some 1000000, is_running = True,
      sub_activity_seconds = []\<rparr>"

definition store_loaded :: Store where
  "store_loaded =
     store_alpha\<lparr>projects :=
       [alpha\<lparr>sub_activities :=
                 [\<lparr>sub_name = ''Dev'', sub_alias = ''dev'',
                   sub_time_records = [(''2025-08-12'', yesterday_running)]\<rparr>],
              time_records :=
                 [(''2025-08-12'', yesterday_running), (''2025-08-13'', today_running)]\<rparr>]\<rparr>"

text \<open>A store that keeps two backups.\<close>

definition store_keep2 :: Store where
  "store_keep2 = store_alpha\<lparr>config := config0\<lparr>max_backups := 2\<rparr>\<rparr>"

text \<open>
  The matching of \<^verbatim>\<open>Path.glob\<close> on a file system that tells upper case from lower
  case, for the patterns whose only wildcard is \<^verbatim>\<open>*\<close>, which stands for any sequence
  of characters. The examples ask for no other pattern.
\<close>

fun star_glob :: "string \<Rightarrow> string \<Rightarrow> bool" where
  "star_glob [] [] = True"
| "star_glob [] (c # cs) = False"
| "star_glob (p # ps) [] = (p = CHR ''*'' \<and> star_glob ps [])"
| "star_glob (p # ps) (c # cs) =
     (if p = CHR ''*'' then star_glob ps (c # cs) \<or> star_glob (p # ps) cs
      else p = c \<and> star_glob ps cs)"

text \<open>No data file and an empty backup directory.\<close>

definition file_system0 :: FileSystem where
  "file_system0 = \<lparr>fs_data_file = None, fs_backups = [], fs_glob = star_glob, fs_writes = 0\<rparr>"

text \<open>A backup directory with three backups of \<^verbatim>\<open>data.json\<close> and another file.\<close>

definition three_backups :: FileSystem where
  "three_backups =
     \<lparr>fs_data_file = Some Garbage,
      fs_backups =
        [(''data_backup_20250813_120002.json'', Garbage),
         (''notes.txt'', Garbage),
         (''data_backup_20250813_120000.json'', Garbage),
         (''data_backup_20250813_120001.json'', Garbage)],
      fs_glob = star_glob, fs_writes = 0\<rparr>"

text \<open>A call of \<^verbatim>\<open>save_projects\<close> at which nothing fails.\<close>

definition world :: "string \<Rightarrow> io" where
  "world timestamp =
     \<lparr>io_stamp = timestamp, io_copy_fails = False, io_undeletable = [],
      io_mkdir_fails = False, io_write = No_fault\<rparr>"


definition document_missing_fields :: document where
  "document_missing_fields =
     \<lparr>doc_projects =
        Some [\<lparr>pd_name = Some ''Alpha'', pd_dz_number = None, pd_alias = None,
               pd_sub_activities = None, pd_time_records = None\<rparr>],
      doc_current_project_alias = None,
      doc_current_sub_activity_alias = None, doc_last_saved = Some 0,
      doc_environment = Some ''test''\<rparr>"

text \<open>
  A store with two projects: \<^verbatim>\<open>alpha\<close> is selected, \<^verbatim>\<open>beta\<close> has a running record of
  today (it was started before \<^verbatim>\<open>alpha\<close> was selected).
\<close>

definition beta :: Project where
  "beta = \<lparr>name = ''Beta'', dz_number = ''DZ2'', project_alias = ''beta'',
           sub_activities = [], time_records = [(''2025-08-13'', today_running)]\<rparr>"

definition store_two :: Store where
  "store_two = store_alpha\<lparr>projects := [alpha, beta], current_project_alias := Some ''alpha''\<rparr>"

lemmas example_defs =
  config0_def alpha_def store_alpha_def yesterday_running_def today_running_def store_loaded_def
  beta_def store_two_def
  store_keep2_def file_system0_def three_backups_def world_def

lemmas model_defs =
  new_record_def add_time_def start_timing_def stop_timing_def
  get_today_record_def get_sub_activity_def add_sub_activity_def
  get_project_def get_current_project_def set_current_project_def set_current_sub_activity_def
  stop_today_record_def start_today_record_def stop_sub_activity_def stop_project_def
  stop_all_timers_def start_sub_activity_def start_project_def start_current_timer_def
  running_records_def running_in_subs_def project_records_running_def
  sub_activity_records_running_def running_count_def
  stopped_today_def other_dates_def sub_other_dates_def project_other_dates_def
  store_other_dates_def today_records_def records_ok_def store_ok_def

lemmas persistence_defs =
  save_projects_def create_backup_def cleanup_old_backups_def backup_files_def
  backup_pattern_def backup_name_def py_slice_upto_def no_faults_def stamps_of_def
  document_of_store_def project_to_dict_def sub_activity_to_dict_def

section \<open>Properties of time records\<close>

text \<open>Some values of \<^verbatim>\<open>round\<close>, by evaluation.\<close>

lemma py_round_values:
  "py_round 2500000 = 2" "py_round 3600000 = 4" "py_round 200000 = 0"
  "py_round 3000000 = 3" "py_round 13600000 = 14" "py_round 1500000 = 2"
  "py_round 19742529599499999 = 19742529600"
  by code_simp+

lemma running_since_start [simp]: "running_since (start_timing now r) = Some now"
  by (simp add: running_since_def start_timing_def)

lemma total_seconds_start [simp]: "total_seconds (start_timing now r) = total_seconds r"
  by (simp add: start_timing_def)

lemma stop_timing_idle:
  "running_since r = None \<Longrightarrow> stop_timing now r = r"
  by (auto simp: running_since_def stop_timing_def split: option.splits if_splits)

lemma stop_timing_run:
  assumes "running_since r = Some t"
  shows "running_since (stop_timing now r) = None"
    and "total_seconds (stop_timing now r) = total_seconds r + run_seconds (t, now)"
  using assms
  by (auto simp: running_since_def stop_timing_def add_time_def run_seconds_def Let_def
      split: option.splits if_splits)

lemma total_seconds_run_calls:
  "total_seconds (run_calls cs r) =
     total_seconds r + sum_list (map run_seconds (completed_runs (running_since r) cs))"
proof (induction cs arbitrary: r)
  case Nil
  show ?case by simp
next
  case (Cons c cs)
  show ?case
  proof (cases c)
    case (Start_timing now)
    then show ?thesis by (simp add: Cons.IH)
  next
    case (Stop_timing now)
    show ?thesis
    proof (cases "running_since r")
      case None
      then show ?thesis
        using Stop_timing by (simp add: Cons.IH stop_timing_idle)
    next
      case (Some t)
      then show ?thesis
        using Stop_timing stop_timing_run [OF Some, of now] by (simp add: Cons.IH)
    qed
  qed
qed

lemma spec_completed_runs_no_restart:
  "no_restart running cs \<Longrightarrow> spec_completed_runs running cs = completed_runs running cs"
proof (induction running cs rule: completed_runs.induct)
  case (1 running)
  show ?case by simp
next
  case (2 running now cs)
  then show ?case by simp
next
  case (3 now cs)
  then show ?case by simp
next
  case (4 t now cs)
  then show ?case by simp
qed

text \<open>
  Claim C2, as stated: after any sequence of \<^verbatim>\<open>start_timing\<close> and \<^verbatim>\<open>stop_timing\<close>
  calls, \<^verbatim>\<open>total_seconds\<close> is its initial value plus the sum over the completed runs
  of \<open>max 1 (round elapsed)\<close>, where by the specification a \<^verbatim>\<open>start_timing\<close> on a
  running record is a no-op. The method has no such check: it overwrites
  \<^verbatim>\<open>last_started\<close>, and the time since the earlier start is lost. A record started at
  10 s, started again at 20 s and stopped at 23.6 s banks 4 s, where the run from 10 s
  to 23.6 s is 14 s.
\<close>

theorem C2_restart_loses_time_counterexample:
  "total_seconds
     (run_calls [Start_timing 10000000, Start_timing 20000000, Stop_timing 23600000]
        (new_record ''2025-08-13'')) = 4
   \<and> total_seconds (new_record ''2025-08-13'')
       + sum_list (map run_seconds
           (spec_completed_runs (running_since (new_record ''2025-08-13''))
              [Start_timing 10000000, Start_timing 20000000, Stop_timing 23600000])) = 14"
  by (simp add: new_record_def running_since_def run_seconds_def start_timing_def
      stop_timing_def add_time_def Let_def py_round_values)

text \<open>
  Claim C2, amended. For every record and every finite sequence of \<^verbatim>\<open>start_timing\<close>
  and \<^verbatim>\<open>stop_timing\<close> calls at given clock readings, \<^verbatim>\<open>total_seconds\<close> afterwards is
  its initial value plus the sum over the completed runs of \<open>max 1 (round elapsed)\<close>, a
  run being counted from the latest \<^verbatim>\<open>start_timing\<close> before its \<^verbatim>\<open>stop_timing\<close>; when
  no \<^verbatim>\<open>start_timing\<close> falls on a running record, these are the runs of the
  specification. A \<^verbatim>\<open>stop_timing\<close> on a record that is not running changes nothing; a
  \<^verbatim>\<open>stop_timing\<close> that completes a run leaves \<^verbatim>\<open>is_running = False\<close> and
  \<^verbatim>\<open>last_started = None\<close>.
\<close>

theorem C2_total_seconds_sums_completed_runs:
  "total_seconds (run_calls cs r) =
     total_seconds r + sum_list (map run_seconds (completed_runs (running_since r) cs))
   \<and> (no_restart (running_since r) cs \<longrightarrow>
        total_seconds (run_calls cs r) =
          total_seconds r + sum_list (map run_seconds (spec_completed_runs (running_since r) cs)))
   \<and> stop_timing now (r\<lparr>is_running := False\<rparr>) = r\<lparr>is_running := False\<rparr>
   \<and> is_running (stop_timing now (r\<lparr>is_running := True, last_started := Some t\<rparr>)) = False
   \<and> last_started (stop_timing now (r\<lparr>is_running := True, last_started := Some t\<rparr>)) = None"
proof -
  have "stop_timing now (r\<lparr>is_running := False\<rparr>) = r\<lparr>is_running := False\<rparr>"
    by (rule stop_timing_idle) (simp add: running_since_def)
  moreover have
    "is_running (stop_timing now (r\<lparr>is_running := True, last_started := Some t\<rparr>)) = False"
    "last_started (stop_timing now (r\<lparr>is_running := True, last_started := Some t\<rparr>)) = None"
    by (simp_all add: stop_timing_def add_time_def Let_def)
  moreover have "total_seconds (run_calls cs r) =
      total_seconds r + sum_list (map run_seconds (spec_completed_runs (running_since r) cs))"
    if "no_restart (running_since r) cs"
    using that by (simp add: total_seconds_run_calls spec_completed_runs_no_restart)
  ultimately show ?thesis
    using total_seconds_run_calls by blast
qed

text \<open>
  A run of 2.5 s banks 2 s (the tie goes to the even side), a second stop banks nothing,
  a run of 3.6 s banks 4 s and a run of 0.2 s banks the floor of 1 s; no start falls on
  a running record. With the second run started at 10 s and again at 20 s before its
  stop at 23.6 s, the total is the same 7 s.
\<close>

theorem C2_total_seconds_sums_completed_runs_witness:
  "no_restart (running_since (new_record ''2025-08-13''))
     [Start_timing 0, Stop_timing 2500000, Stop_timing 9000000,
      Start_timing 20000000, Stop_timing 23600000,
      Start_timing 30000000, Stop_timing 30200000]
   \<and> total_seconds
       (run_calls
          [Start_timing 0, Stop_timing 2500000, Stop_timing 9000000,
           Start_timing 20000000, Stop_timing 23600000,
           Start_timing 30000000, Stop_timing 30200000]
          (new_record ''2025-08-13'')) = 7
   \<and> total_seconds
       (run_calls
          [Start_timing 0, Stop_timing 2500000, Stop_timing 9000000,
           Start_timing 10000000, Start_timing 20000000, Stop_timing 23600000,
           Start_timing 30000000, Stop_timing 30200000]
          (new_record ''2025-08-13'')) = 7"
proof -
  let ?r = "new_record ''2025-08-13''"
  let ?cs = "[Start_timing 0, Stop_timing 2500000, Stop_timing 9000000,
      Start_timing 20000000, Stop_timing 23600000,
      Start_timing 30000000, Stop_timing 30200000]"
  let ?cs' = "[Start_timing 0, Stop_timing 2500000, Stop_timing 9000000,
      Start_timing 10000000, Start_timing 20000000, Stop_timing 23600000,
      Start_timing 30000000, Stop_timing 30200000]"
  have n: "no_restart (running_since ?r) ?cs"
    by (simp add: new_record_def running_since_def)
  have "total_seconds (run_calls ?cs ?r) =
      total_seconds ?r + sum_list (map run_seconds (spec_completed_runs (running_since ?r) ?cs))"
    using C2_total_seconds_sums_completed_runs [of ?cs ?r 0 0] n by blast
  then have a: "total_seconds (run_calls ?cs ?r) = 7"
    by (simp add: new_record_def running_since_def run_seconds_def py_round_values)
  have "total_seconds (run_calls ?cs' ?r) =
      total_seconds ?r + sum_list (map run_seconds (completed_runs (running_since ?r) ?cs'))"
    using C2_total_seconds_sums_completed_runs [of ?cs' ?r 0 0] by blast
  then have b: "total_seconds (run_calls ?cs' ?r) = 7"
    by (simp add: new_record_def running_since_def run_seconds_def py_round_values)
  show ?thesis
    using n a b by simp
qed

text \<open>
  Claim C9. A record with \<^verbatim>\<open>is_running = True\<close> and \<^verbatim>\<open>last_started = None\<close> is left
  exactly as it is by \<^verbatim>\<open>stop_timing\<close>: it stays running and banks no time.
\<close>

theorem C9_stop_timing_without_start_is_noop:
  "is_running r \<Longrightarrow> last_started r = None \<Longrightarrow> stop_timing now r = r"
  by (simp add: stop_timing_def)

theorem C9_stop_timing_without_start_is_noop_witness:
  "is_running ((new_record ''2025-08-13'')\<lparr>total_seconds := 40, is_running := True\<rparr>)
   \<and> last_started ((new_record ''2025-08-13'')\<lparr>total_seconds := 40, is_running := True\<rparr>) = None
   \<and> stop_timing 5000000 ((new_record ''2025-08-13'')\<lparr>total_seconds := 40, is_running := True\<rparr>)
       = \<lparr>date = ''2025-08-13'', total_seconds = 40, last_started = None, is_running = True,
          sub_activity_seconds = []\<rparr>"
  using C9_stop_timing_without_start_is_noop
    [of "(new_record ''2025-08-13'')\<lparr>total_seconds := 40, is_running := True\<rparr>" 5000000]
  by (simp add: new_record_def)

section \<open>Selection and sub-activity lists\<close>

text \<open>
  Claim C3, as stated: for every store and every alias \<open>x\<close>, after
  \<^verbatim>\<open>set_current_project(x)\<close> the sub-activity selection is \<^verbatim>\<open>None\<close>. It fails for an
  alias that names no project: the call returns \<^verbatim>\<open>False\<close> before touching either
  pointer. Below, \<^verbatim>\<open>alpha\<close> and its sub-activity \<^verbatim>\<open>dev\<close> are selected, then the unknown
  alias \<^verbatim>\<open>beta\<close> is asked for.
\<close>

theorem C3_unknown_alias_keeps_sub_activity_counterexample:
  "current_sub_activity_alias
     (snd (set_current_project ''beta''
        (snd (set_current_sub_activity (Some ''dev'')
           (snd (set_current_project ''alpha'' store_alpha))))))
   = Some ''dev''"
  by (simp add: model_defs example_defs Let_def)

text \<open>
  Claim C3, amended: when \<open>x\<close> names a project of the store, \<^verbatim>\<open>set_current_project(x)\<close>
  returns \<^verbatim>\<open>True\<close>, makes \<open>x\<close> the current project and leaves the sub-activity selection
  \<^verbatim>\<open>None\<close>, whatever was selected before; when \<open>x\<close> names no project it returns
  \<^verbatim>\<open>False\<close> and leaves the store as it was.
\<close>

theorem C3_set_current_project_clears_sub_activity:
  "(get_project x s \<noteq> None \<longrightarrow>
      fst (set_current_project x s) = True
      \<and> current_project_alias (snd (set_current_project x s)) = Some x
      \<and> current_sub_activity_alias (snd (set_current_project x s)) = None)
   \<and> (get_project x s = None \<longrightarrow> set_current_project x s = (False, s))"
  by (auto simp: set_current_project_def split: option.splits)

theorem C3_set_current_project_clears_sub_activity_witness:
  "get_project ''alpha'' (store_alpha\<lparr>current_sub_activity_alias := Some ''dev''\<rparr>) \<noteq> None
   \<and> current_sub_activity_alias
        (snd (set_current_project ''alpha''
           (store_alpha\<lparr>current_sub_activity_alias := Some ''dev''\<rparr>))) = None
   \<and> get_project ''beta'' store_alpha = None
   \<and> set_current_project ''beta'' store_alpha = (False, store_alpha)"
  using C3_set_current_project_clears_sub_activity
      [of "''alpha''" "store_alpha\<lparr>current_sub_activity_alias := Some ''dev''\<rparr>"]
    C3_set_current_project_clears_sub_activity [of "''beta''" store_alpha]
  by (simp add: get_project_def example_defs)

text \<open>
  Claim C5, as stated: \<^verbatim>\<open>add_sub_activity(name, a)\<close> is rejected when the project
  already has a sub-activity with alias \<open>a\<close>, and the list is unchanged. The method has
  no check: it appends and returns the new sub-activity every time, so the list below ends
  up with two sub-activities under the alias \<^verbatim>\<open>dev\<close>.
\<close>

theorem C5_duplicate_alias_is_appended_counterexample:
  "map sub_alias
     (sub_activities
        (snd (add_sub_activity ''Development'' ''dev''
           (snd (add_sub_activity ''Dev'' ''dev'' alpha)))))
   = [''dev'', ''dev'']"
  by (simp add: add_sub_activity_def alpha_def Let_def)

lemma find_append_Some:
  "find P xs \<noteq> None \<Longrightarrow> find P (xs @ ys) = find P xs"
  by (induction xs) auto

text \<open>
  Claim C5, amended: \<^verbatim>\<open>add_sub_activity(name, a)\<close> never rejects. It returns a new
  sub-activity with that name, that alias and no records and appends it to the project's
  list, changing nothing else, also when the alias is already in use; in that case
  \<^verbatim>\<open>get_sub_activity(a)\<close> keeps resolving to the earlier sub-activity.
\<close>

theorem C5_add_sub_activity_always_appends:
  "fst (add_sub_activity nm a p) = \<lparr>sub_name = nm, sub_alias = a, sub_time_records = []\<rparr>
   \<and> snd (add_sub_activity nm a p) =
       p\<lparr>sub_activities := sub_activities p @ [fst (add_sub_activity nm a p)]\<rparr>
   \<and> (get_sub_activity a p \<noteq> None \<longrightarrow>
        get_sub_activity a (snd (add_sub_activity nm a p)) = get_sub_activity a p)"
  by (auto simp: add_sub_activity_def get_sub_activity_def find_append_Some Let_def)

theorem C5_add_sub_activity_always_appends_witness:
  "get_sub_activity ''dev'' (snd (add_sub_activity ''Dev'' ''dev'' alpha)) \<noteq> None
   \<and> get_sub_activity ''dev''
        (snd (add_sub_activity ''Development'' ''dev'' (snd (add_sub_activity ''Dev'' ''dev'' alpha))))
      = Some \<lparr>sub_name = ''Dev'', sub_alias = ''dev'', sub_time_records = []\<rparr>
   \<and> length (sub_activities
        (snd (add_sub_activity ''Development'' ''dev'' (snd (add_sub_activity ''Dev'' ''dev'' alpha)))))
      = 2"
  using C5_add_sub_activity_always_appends
      [of "''Development''" "''dev''" "snd (add_sub_activity ''Dev'' ''dev'' alpha)"]
  by (simp add: add_sub_activity_def get_sub_activity_def alpha_def Let_def)

section \<open>Stopping all timers\<close>

lemma is_running_new_record [simp]: "is_running (new_record d) = False"
  by (simp add: new_record_def)

lemma map_of_stop_today_record:
  "map_of (stop_today_record now today recs) today = Some (stopped_today now today recs)"
  by (auto simp: stop_today_record_def stopped_today_def get_today_record_def update_conv'
      map_add_def fun_eq_iff split: option.splits prod.splits)

lemma other_dates_update [simp]:
  "other_dates k (AList.update k v recs) = other_dates k recs"
  by (induction recs) (auto simp: other_dates_def)

lemma other_dates_stop_today_record [simp]:
  "other_dates today (stop_today_record now today recs) = other_dates today recs"
  by (auto simp: stop_today_record_def get_today_record_def
      split: option.splits prod.splits) (simp_all add: other_dates_def)

lemma sub_other_dates_stop [simp]:
  "sub_other_dates today (stop_sub_activity now today sub) = sub_other_dates today sub"
  by (simp add: sub_other_dates_def stop_sub_activity_def)

lemma project_other_dates_stop [simp]:
  "project_other_dates today (stop_project now today proj) = project_other_dates today proj"
  by (simp add: project_other_dates_def stop_project_def comp_def)

lemma store_other_dates_stop:
  "store_other_dates today (stop_all_timers now today s) = store_other_dates today s"
  by (simp add: store_other_dates_def stop_all_timers_def comp_def)

lemma today_records_stop:
  "today_records today (stop_all_timers now today s) =
     map (\<lambda>proj. (Some (stopped_today now today (time_records proj)),
                  map (\<lambda>sub. Some (stopped_today now today (sub_time_records sub)))
                    (sub_activities proj)))
       (projects s)"
  by (simp add: today_records_def stop_all_timers_def stop_project_def stop_sub_activity_def
      map_of_stop_today_record comp_def)

lemma past_record_kept:
  assumes "i < length (projects s)" "(k, r) \<in> set (time_records (projects s ! i))" "k \<noteq> today"
  shows "(k, r) \<in> set (time_records (projects (stop_all_timers now today s) ! i))"
proof -
  have "(k, r) \<in> set (other_dates today (time_records (projects s ! i)))"
    using assms by (simp add: other_dates_def)
  then have "(k, r) \<in> set (other_dates today (stop_today_record now today (time_records (projects s ! i))))"
    by simp
  then show ?thesis
    using assms(1) by (simp add: stop_all_timers_def stop_project_def other_dates_def)
qed

lemma past_sub_record_kept:
  assumes "i < length (projects s)" "j < length (sub_activities (projects s ! i))"
    "(k, r) \<in> set (sub_time_records (sub_activities (projects s ! i) ! j))" "k \<noteq> today"
  shows "(k, r) \<in> set (sub_time_records
           (sub_activities (projects (stop_all_timers now today s) ! i) ! j))"
proof -
  let ?recs = "sub_time_records (sub_activities (projects s ! i) ! j)"
  have "(k, r) \<in> set (other_dates today ?recs)"
    using assms by (simp add: other_dates_def)
  then have "(k, r) \<in> set (other_dates today (stop_today_record now today ?recs))"
    by simp
  then show ?thesis
    using assms(1,2)
    by (simp add: stop_all_timers_def stop_project_def stop_sub_activity_def other_dates_def)
qed

text \<open>
  Claim C10. \<^verbatim>\<open>stop_all_timers\<close> touches only the entries under today's key: with
  those taken out, the store is the same before and after. Under today's key every
  project and every sub-activity afterwards has a record, which is decided by the entry
  that was there: an empty record when there was none, the stopped record when it was
  running, the same record otherwise. So a record that is running under another date
  is still there, running, afterwards.
\<close>

theorem C10_stop_all_timers_touches_today_only:
  "store_other_dates today (stop_all_timers now today s) = store_other_dates today s
   \<and> today_records today (stop_all_timers now today s) =
       map (\<lambda>proj. (Some (stopped_today now today (time_records proj)),
                    map (\<lambda>sub. Some (stopped_today now today (sub_time_records sub)))
                      (sub_activities proj)))
         (projects s)
   \<and> (\<forall>i k r. i < length (projects s) \<and> (k, r) \<in> set (time_records (projects s ! i))
          \<and> k \<noteq> today \<and> is_running r \<longrightarrow>
        (k, r) \<in> set (time_records (projects (stop_all_timers now today s) ! i)))
   \<and> (\<forall>i j k r. i < length (projects s) \<and> j < length (sub_activities (projects s ! i))
          \<and> (k, r) \<in> set (sub_time_records (sub_activities (projects s ! i) ! j))
          \<and> k \<noteq> today \<and> is_running r \<longrightarrow>
        (k, r) \<in> set (sub_time_records
           (sub_activities (projects (stop_all_timers now today s) ! i) ! j)))"
  using store_other_dates_stop [of today now s] today_records_stop [of today now s]
    past_record_kept [of _ s _ _ today now] past_sub_record_kept [of _ s _ _ _ today now]
  by blast

text \<open>
  In the loaded store the project's record of today (7 s banked, running for 3 s) is
  stopped at 10 s, the sub-activity gets an empty record for today, and both records of
  yesterday are still running.
\<close>

theorem C10_stop_all_timers_touches_today_only_witness:
  "(0::nat) < length (projects store_loaded)
   \<and> (''2025-08-12'', yesterday_running) \<in> set (time_records (projects store_loaded ! 0))
   \<and> ''2025-08-12'' \<noteq> ''2025-08-13'' \<and> is_running yesterday_running
   \<and> (''2025-08-12'', yesterday_running)
        \<in> set (time_records (projects (stop_all_timers 4000000 ''2025-08-13'' store_loaded) ! 0))
   \<and> today_records ''2025-08-13'' (stop_all_timers 4000000 ''2025-08-13'' store_loaded) =
       [(Some (today_running\<lparr>total_seconds := 10, is_running := False, last_started := None\<rparr>),
         [Some (new_record ''2025-08-13'')])]"
proof -
  have pre: "(0::nat) < length (projects store_loaded)
      \<and> (''2025-08-12'', yesterday_running) \<in> set (time_records (projects store_loaded ! 0))
      \<and> ''2025-08-12'' \<noteq> ''2025-08-13'' \<and> is_running yesterday_running"
    by (simp add: example_defs)
  have val: "map (\<lambda>proj. (Some (stopped_today 4000000 ''2025-08-13'' (time_records proj)),
                    map (\<lambda>sub. Some (stopped_today 4000000 ''2025-08-13'' (sub_time_records sub)))
                      (sub_activities proj)))
         (projects store_loaded) =
       [(Some (today_running\<lparr>total_seconds := 10, is_running := False, last_started := None\<rparr>),
         [Some (new_record ''2025-08-13'')])]"
    by (simp add: example_defs stopped_today_def stop_timing_def add_time_def py_round_values)
  note inst = C10_stop_all_timers_touches_today_only [of "''2025-08-13''" 4000000 store_loaded]
  have kept: "(''2025-08-12'', yesterday_running)
        \<in> set (time_records (projects (stop_all_timers 4000000 ''2025-08-13'' store_loaded) ! 0))"
    using inst pre by blast
  have today: "today_records ''2025-08-13'' (stop_all_timers 4000000 ''2025-08-13'' store_loaded) =
       [(Some (today_running\<lparr>total_seconds := 10, is_running := False, last_started := None\<rparr>),
         [Some (new_record ''2025-08-13'')])]"
    using inst val by simp
  show ?thesis
    using pre kept today by simp
qed

section \<open>Starting the current timer\<close>

lemma running_records_0_iff:
  "running_records recs = 0 \<longleftrightarrow> (\<forall>kr \<in> set recs. \<not> is_running (snd kr))"
  by (auto simp: running_records_def filter_empty_conv)

lemma set_update_distinct:
  "distinct (map fst recs) \<Longrightarrow>
     set (AList.update k v recs) = insert (k, v) {kr \<in> set recs. fst kr \<noteq> k}"
  by (induction recs) (auto simp: rev_image_eqI)

lemma is_running_stop_timing:
  "last_started r \<noteq> None \<Longrightarrow> \<not> is_running (stop_timing now r)"
  by (auto simp: stop_timing_def add_time_def Let_def split: option.splits)

lemma stop_today_record_idle:
  assumes "records_ok today recs"
  shows "running_records (stop_today_record now today recs) = 0"
proof (cases "map_of recs today")
  case None
  then have "today \<notin> fst ` set recs"
    by (simp add: map_of_eq_None_iff)
  then have "\<forall>kr \<in> set recs. \<not> is_running (snd kr)"
    using assms by (auto simp: records_ok_def list_all_iff)
  then show ?thesis
    using None by (simp add: running_records_0_iff stop_today_record_def get_today_record_def)
next
  case (Some r)
  have d: "distinct (map fst recs)"
    using assms by (simp add: records_ok_def)
  have mem: "(today, r) \<in> set recs"
    using Some by (rule map_of_SomeD)
  have others: "\<not> is_running (snd kr)" if "kr \<in> set recs" "fst kr \<noteq> today" for kr
    using assms that by (auto simp: records_ok_def list_all_iff)
  show ?thesis
  proof (cases "is_running r")
    case True
    then have "last_started r \<noteq> None"
      using assms mem by (auto simp: records_ok_def list_all_iff)
    then have "\<not> is_running (stop_timing now r)"
      by (rule is_running_stop_timing)
    then show ?thesis
      using Some True others
      by (auto simp: running_records_0_iff stop_today_record_def get_today_record_def
          set_update_distinct [OF d])
  next
    case False
    have "\<not> is_running (snd kr)" if "kr \<in> set recs" for kr
    proof (cases "fst kr = today")
      case True
      then have "kr = (today, r)"
        using d mem that by (metis eq_key_imp_eq_value prod.collapse)
      then show ?thesis using False by simp
    next
      case False
      then show ?thesis using others that by simp
    qed
    then show ?thesis
      using Some False
      by (simp add: running_records_0_iff stop_today_record_def get_today_record_def)
  qed
qed

lemma running_records_update_idle:
  "running_records recs = 0 \<Longrightarrow>
     running_records (AList.update k v recs) = (if is_running v then 1 else 0)"
  by (induction recs) (auto simp: running_records_def split: if_splits)

lemma running_records_start_today:
  assumes "running_records recs = 0"
  shows "running_records (start_today_record now today recs) = 1"
proof -
  obtain r recs' where g: "get_today_record today recs = (r, recs')"
    by (cases "get_today_record today recs")
  have "running_records recs' = 0"
    using assms g by (auto simp: get_today_record_def running_records_def split: option.splits)
  then show ?thesis
    by (simp add: start_today_record_def g running_records_update_idle start_timing_def)
qed

lemma find_Some_mem: "find P xs = Some x \<Longrightarrow> x \<in> set xs"
  by (induction xs) (auto split: if_splits)

lemma sum_list_update_first:
  fixes f :: "'a \<Rightarrow> nat"
  assumes "\<forall>x \<in> set xs. f x = 0"
  shows "sum_list (map f (update_first P g xs)) =
           (case find P xs of None \<Rightarrow> 0 | Some x \<Rightarrow> f (g x))"
  using assms by (induction xs) auto

lemma find_update_first:
  assumes "\<And>x. P x \<Longrightarrow> P (g x)"
  shows "find P (update_first P g xs) = map_option g (find P xs)"
  using assms by (induction xs) auto

lemma find_map': "find P (map f xs) = map_option f (find (\<lambda>x. P (f x)) xs)"
  by (induction xs) auto

lemma project_alias_stop [simp]: "project_alias (stop_project now today proj) = project_alias proj"
  by (simp add: stop_project_def)

lemma sub_alias_stop [simp]: "sub_alias (stop_sub_activity now today sub) = sub_alias sub"
  by (simp add: stop_sub_activity_def)

lemma get_project_stop:
  "get_project a (stop_all_timers now today s) = map_option (stop_project now today) (get_project a s)"
  by (simp add: get_project_def stop_all_timers_def find_map')

lemma get_current_project_stop:
  "get_current_project (stop_all_timers now today s) =
     map_option (stop_project now today) (get_current_project s)"
  by (simp add: get_current_project_def get_project_stop split: option.splits)
    (simp add: stop_all_timers_def)

lemma get_sub_activity_stop:
  "get_sub_activity b (stop_project now today proj) =
     map_option (stop_sub_activity now today) (get_sub_activity b proj)"
  by (simp add: get_sub_activity_def stop_project_def find_map')

lemma stop_all_idle:
  assumes "store_ok today s" "proj \<in> set (projects (stop_all_timers now today s))"
  shows "running_records (time_records proj) = 0" and "running_in_subs proj = 0"
proof -
  obtain p where p: "p \<in> set (projects s)" "proj = stop_project now today p"
    using assms(2) by (auto simp: stop_all_timers_def)
  have ok: "records_ok today (time_records p)"
    "\<forall>sub \<in> set (sub_activities p). records_ok today (sub_time_records sub)"
    using assms(1) p(1) by (auto simp: store_ok_def list_all_iff)
  show "running_records (time_records proj) = 0"
    using ok(1) by (simp add: p(2) stop_project_def stop_today_record_idle)
  show "running_in_subs proj = 0"
    using ok(2)
    by (simp add: p(2) running_in_subs_def stop_project_def stop_sub_activity_def
        stop_today_record_idle comp_def)
qed

lemma running_start_project:
  assumes "running_records (time_records proj) = 0" "running_in_subs proj = 0"
  shows "running_records (time_records (start_project now today b proj)) = 1"
    and "running_in_subs (start_project now today b proj) \<le> 1"
    and "b = None \<Longrightarrow> running_in_subs (start_project now today b proj) = 0"
proof -
  show "running_records (time_records (start_project now today b proj)) = 1"
    using assms(1)
    by (simp add: start_project_def Let_def running_records_start_today split: option.splits)
  have subs: "\<forall>sub \<in> set (sub_activities proj). running_records (sub_time_records sub) = 0"
    using assms(2) by (simp add: running_in_subs_def)
  have "sum_list (map (\<lambda>sub. running_records (sub_time_records sub))
          (update_first P (start_sub_activity now today) (sub_activities proj))) \<le> 1" for P
  proof (cases "find P (sub_activities proj)")
    case None
    then show ?thesis
      using subs
      by (simp add: sum_list_update_first [where f = "\<lambda>sub. running_records (sub_time_records sub)"])
  next
    case (Some sub)
    then have "running_records (sub_time_records sub) = 0"
      using subs find_Some_mem by fastforce
    then show ?thesis
      using subs Some
      by (simp add: sum_list_update_first [where f = "\<lambda>sub. running_records (sub_time_records sub)"]
          start_sub_activity_def running_records_start_today)
  qed
  note le1 = this
  have z: "sum_list (map (\<lambda>sub. running_records (sub_time_records sub)) (sub_activities proj)) = 0"
    using assms(2) by (simp only: running_in_subs_def)
  show "running_in_subs (start_project now today b proj) \<le> 1"
  proof (cases b)
    case None
    then show ?thesis
      by (simp only: start_project_def Let_def running_in_subs_def option.case) (simp add: z)
  next
    case (Some a)
    then show ?thesis
      using le1 [of "\<lambda>sub. sub_alias sub = a"]
      by (cases "a = []") (simp_all add: start_project_def Let_def running_in_subs_def z)
  qed
  show "running_in_subs (start_project now today b proj) = 0" if "b = None"
    using that by (simp add: start_project_def Let_def running_in_subs_def z)
qed

lemma start_current_timer_running:
  assumes "store_ok today s"
  shows "project_records_running (snd (start_current_timer now today s)) \<le> 1"
    and "sub_activity_records_running (snd (start_current_timer now today s)) \<le> 1"
    and "current_sub_activity_alias s = None \<Longrightarrow>
           sub_activity_records_running (snd (start_current_timer now today s)) = 0"
proof -
  let ?s1 = "stop_all_timers now today s"
  let ?ps = "projects ?s1"
  let ?g = "start_project now today (current_sub_activity_alias ?s1)"
  have idle1: "\<forall>proj \<in> set ?ps. running_records (time_records proj) = 0"
    and idle2: "\<forall>proj \<in> set ?ps. running_in_subs proj = 0"
    using stop_all_idle [OF assms] by blast+
  have z1: "sum_list (map (\<lambda>proj. running_records (time_records proj)) ?ps) = 0"
    using idle1 by simp
  have z2: "sum_list (map running_in_subs ?ps) = 0"
    using idle2 by simp
  have sub_same: "current_sub_activity_alias ?s1 = current_sub_activity_alias s"
    by (simp add: stop_all_timers_def)
  have upd1: "sum_list (map (\<lambda>proj. running_records (time_records proj)) (update_first P ?g ?ps)) \<le> 1"
    for P
  proof (cases "find P ?ps")
    case None
    then show ?thesis
      using idle1
      by (simp add: sum_list_update_first [where f = "\<lambda>proj. running_records (time_records proj)"])
  next
    case (Some x)
    then have "x \<in> set ?ps" by (rule find_Some_mem)
    then have "running_records (time_records (?g x)) = 1"
      using idle1 idle2 running_start_project(1) by blast
    then show ?thesis
      using idle1 Some
      by (simp add: sum_list_update_first [where f = "\<lambda>proj. running_records (time_records proj)"])
  qed
  have upd2: "sum_list (map running_in_subs (update_first P ?g ?ps)) \<le> 1"
    and upd3: "current_sub_activity_alias s = None \<Longrightarrow>
                 sum_list (map running_in_subs (update_first P ?g ?ps)) = 0" for P
  proof -
    show "sum_list (map running_in_subs (update_first P ?g ?ps)) \<le> 1"
    proof (cases "find P ?ps")
      case None
      then show ?thesis
        using idle2 by (simp add: sum_list_update_first [where f = running_in_subs])
    next
      case (Some x)
      then have "x \<in> set ?ps" by (rule find_Some_mem)
      then have "running_in_subs (?g x) \<le> 1"
        using idle1 idle2 running_start_project(2) by blast
      then show ?thesis
        using idle2 Some by (simp add: sum_list_update_first [where f = running_in_subs])
    qed
    show "sum_list (map running_in_subs (update_first P ?g ?ps)) = 0"
      if "current_sub_activity_alias s = None"
    proof (cases "find P ?ps")
      case None
      then show ?thesis
        using idle2 by (simp add: sum_list_update_first [where f = running_in_subs])
    next
      case (Some x)
      then have "x \<in> set ?ps" by (rule find_Some_mem)
      then have "running_in_subs (?g x) = 0"
        using idle1 idle2 running_start_project(3) that sub_same by metis
      then show ?thesis
        using idle2 Some by (simp add: sum_list_update_first [where f = running_in_subs])
    qed
  qed
  show "project_records_running (snd (start_current_timer now today s)) \<le> 1"
    using upd1
    by (simp add: start_current_timer_def Let_def project_records_running_def z1 split: option.splits)
  show "sub_activity_records_running (snd (start_current_timer now today s)) \<le> 1"
    using upd2
    by (simp add: start_current_timer_def Let_def sub_activity_records_running_def z2 split: option.splits)
  show "sub_activity_records_running (snd (start_current_timer now today s)) = 0"
    if "current_sub_activity_alias s = None"
    using upd3 [OF that] idle2
    by (simp add: start_current_timer_def Let_def sub_activity_records_running_def z2 split: option.splits)
qed

text \<open>
  Claim C1, as stated: after \<^verbatim>\<open>start_current_timer()\<close> on a reachable store at most one
  record of the whole graph is running. With a sub-activity selected the call starts two
  records, the project's and the sub-activity's. The store below is reached from a store
  with one project by selecting the project and its sub-activity \<^verbatim>\<open>dev\<close>.
\<close>

theorem C1_two_records_running_counterexample:
  "running_count
     (snd (start_current_timer 0 ''2025-08-13''
        (snd (set_current_sub_activity (Some ''dev'')
           (snd (set_current_project ''alpha'' store_alpha))))))
   = 2"
  by (simp add: model_defs example_defs Let_def)

text \<open>
  Claim C1, amended: after \<^verbatim>\<open>start_current_timer()\<close> on a store in which every record
  that is already running is a record of today with \<^verbatim>\<open>last_started\<close> set, at most one
  record of a Project and at most one record of a SubActivity are running in the whole
  graph; when no sub-activity is selected, at most one record is running in all.
\<close>

theorem C1_at_most_one_running_per_level:
  assumes "store_ok today s"
  shows "project_records_running (snd (start_current_timer now today s)) \<le> 1
       \<and> sub_activity_records_running (snd (start_current_timer now today s)) \<le> 1
       \<and> (current_sub_activity_alias s = None \<longrightarrow>
            running_count (snd (start_current_timer now today s)) \<le> 1)"
  using start_current_timer_running [OF assms, of now]
  by (simp add: running_count_def)

text \<open>
  Starting the timer again on the store reached above, where two records of today are
  running: both are stopped first, and again one record per level runs.
\<close>

theorem C1_at_most_one_running_per_level_witness:
  "store_ok ''2025-08-13''
     (snd (start_current_timer 0 ''2025-08-13''
        (snd (set_current_sub_activity (Some ''dev'')
           (snd (set_current_project ''alpha'' store_alpha))))))
   \<and> project_records_running
        (snd (start_current_timer 9000000 ''2025-08-13''
           (snd (start_current_timer 0 ''2025-08-13''
              (snd (set_current_sub_activity (Some ''dev'')
                 (snd (set_current_project ''alpha'' store_alpha)))))))) \<le> 1
   \<and> sub_activity_records_running
        (snd (start_current_timer 9000000 ''2025-08-13''
           (snd (start_current_timer 0 ''2025-08-13''
              (snd (set_current_sub_activity (Some ''dev'')
                 (snd (set_current_project ''alpha'' store_alpha)))))))) \<le> 1"
proof -
  have ok: "store_ok ''2025-08-13''
     (snd (start_current_timer 0 ''2025-08-13''
        (snd (set_current_sub_activity (Some ''dev'')
           (snd (set_current_project ''alpha'' store_alpha))))))"
    by (simp add: model_defs example_defs Let_def)
  show ?thesis
    using ok C1_at_most_one_running_per_level [OF ok, of 9000000] by simp
qed

lemma fst_start_current_timer:
  "fst (start_current_timer now today s) = (get_current_project s \<noteq> None)"
  by (simp add: start_current_timer_def Let_def get_current_project_stop split: option.splits)

lemma start_current_timer_no_project:
  "get_current_project s = None \<Longrightarrow>
     snd (start_current_timer now today s) = stop_all_timers now today s"
  by (simp add: start_current_timer_def Let_def get_current_project_stop)

lemma get_current_project_alias:
  "get_current_project s = Some project \<Longrightarrow> current_project_alias s = Some (project_alias project)"
  by (auto simp: get_current_project_def get_project_def find_Some_iff split: option.splits if_splits)

lemma project_alias_start [simp]:
  "project_alias (start_project now today b proj) = project_alias proj"
  by (simp add: start_project_def Let_def split: option.splits)

lemma get_current_project_start:
  assumes "get_current_project s = Some project"
  shows "get_current_project (snd (start_current_timer now today s)) =
           Some (start_project now today (current_sub_activity_alias s) (stop_project now today project))"
proof -
  let ?s1 = "stop_all_timers now today s"
  let ?a = "project_alias project"
  have cur1: "get_current_project ?s1 = Some (stop_project now today project)"
    using assms by (simp add: get_current_project_stop)
  have a: "current_project_alias s = Some ?a" "?a \<noteq> []"
    using assms get_current_project_alias [OF assms]
    by (auto simp: get_current_project_def split: option.splits if_splits)
  have f: "find (\<lambda>proj. project_alias proj = ?a) (projects ?s1) = Some (stop_project now today project)"
    using cur1 a by (simp add: get_current_project_def get_project_def stop_all_timers_def)
  have sub_same: "current_sub_activity_alias ?s1 = current_sub_activity_alias s"
    by (simp add: stop_all_timers_def)
  have "snd (start_current_timer now today s) =
          ?s1\<lparr>projects := update_first (\<lambda>proj. project_alias proj = ?a)
                   (start_project now today (current_sub_activity_alias s)) (projects ?s1)\<rparr>"
    by (simp add: start_current_timer_def Let_def cur1 sub_same)
  then show ?thesis
    using a f
    by (simp add: get_current_project_def get_project_def find_update_first stop_all_timers_def)
qed

lemma map_of_start_today_record:
  "map_of (start_today_record now today recs) today =
     Some (start_timing now (case map_of recs today of None \<Rightarrow> new_record today | Some r \<Rightarrow> r))"
  by (auto simp: start_today_record_def get_today_record_def update_conv' split: option.splits)

lemma time_records_start_stop:
  "map_of (time_records (start_project now today b (stop_project now today proj))) today =
     Some (start_timing now (stopped_today now today (time_records proj)))"
  by (simp add: start_project_def Let_def stop_project_def map_of_start_today_record
      map_of_stop_today_record split: option.splits)

lemma sub_alias_start [simp]: "sub_alias (start_sub_activity now today sub) = sub_alias sub"
  by (simp add: start_sub_activity_def)

lemma get_sub_activity_start_stop:
  assumes "get_sub_activity b proj = Some sub" "b \<noteq> []"
  shows "get_sub_activity b (start_project now today (Some b) (stop_project now today proj)) =
           Some (start_sub_activity now today (stop_sub_activity now today sub))"
  using assms
  by (simp add: get_sub_activity_def start_project_def Let_def stop_project_def
      find_update_first find_map')

lemma sub_records_start_stop:
  "map_of (sub_time_records (start_sub_activity now today (stop_sub_activity now today sub))) today =
     Some (start_timing now (stopped_today now today (sub_time_records sub)))"
  by (simp add: start_sub_activity_def stop_sub_activity_def map_of_start_today_record
      map_of_stop_today_record)

text \<open>
  Claim C4, as stated: \<^verbatim>\<open>start_current_timer()\<close> calls \<^verbatim>\<open>stop_all_timers()\<close> only
  when a current project is selected, so that a call returning \<^verbatim>\<open>False\<close> leaves every
  timer as it was. The method stops all timers before it looks for the current project:
  in the loaded store, where nothing is selected, the call returns \<^verbatim>\<open>False\<close> and the
  project's running record of today has been stopped.
\<close>

theorem C4_false_return_stops_timers_counterexample:
  "fst (start_current_timer 4000000 ''2025-08-13'' store_loaded) = False
   \<and> is_running_today ''2025-08-13'' (time_records (projects store_loaded ! 0)) = True
   \<and> is_running_today ''2025-08-13''
        (time_records (projects (snd (start_current_timer 4000000 ''2025-08-13'' store_loaded)) ! 0))
      = False"
  by (simp add: model_defs example_defs is_running_today_def Let_def)

lemma start_current_timer_found:
  assumes "get_current_project s = Some project"
  shows "snd (start_current_timer now today s) =
           (stop_all_timers now today s)
           \<lparr>projects :=
              update_first (\<lambda>proj. project_alias proj = project_alias project)
                (start_project now today (current_sub_activity_alias s))
                (projects (stop_all_timers now today s))\<rparr>"
proof -
  have "get_current_project (stop_all_timers now today s) = Some (stop_project now today project)"
    using assms by (simp add: get_current_project_stop)
  moreover have "current_sub_activity_alias (stop_all_timers now today s) = current_sub_activity_alias s"
    by (simp add: stop_all_timers_def)
  ultimately show ?thesis
    by (simp add: start_current_timer_def Let_def)
qed

lemma nth_update_first_other:
  "i < length xs \<Longrightarrow> \<not> P (xs ! i) \<Longrightarrow> update_first P f xs ! i = xs ! i"
proof (induction xs arbitrary: i)
  case Nil
  then show ?case by simp
next
  case (Cons x xs)
  then show ?case by (cases i) auto
qed

lemma length_update_first [simp]: "length (update_first P f xs) = length xs"
  by (induction xs) auto

lemma other_project_stopped:
  assumes cur: "get_current_project s = Some project"
    and i: "i < length (projects s)"
    and other: "project_alias (projects s ! i) \<noteq> project_alias project"
  shows "projects (snd (start_current_timer now today s)) ! i =
           stop_project now today (projects s ! i)"
proof -
  let ?ps = "projects (stop_all_timers now today s)"
  have n: "?ps ! i = stop_project now today (projects s ! i)" and l: "i < length ?ps"
    using i by (simp_all add: stop_all_timers_def)
  have "\<not> project_alias (?ps ! i) = project_alias project"
    using other by (simp add: n)
  then have "update_first (\<lambda>proj. project_alias proj = project_alias project)
      (start_project now today (current_sub_activity_alias s)) ?ps ! i = ?ps ! i"
    using l by (intro nth_update_first_other) simp_all
  then show ?thesis
    by (simp add: start_current_timer_found [OF cur] n)
qed

text \<open>
  Claim C4, amended: \<^verbatim>\<open>start_current_timer()\<close> calls \<^verbatim>\<open>stop_all_timers()\<close> first in
  every case. It returns \<^verbatim>\<open>False\<close> exactly when no current project is found, and the
  store is then as \<^verbatim>\<open>stop_all_timers()\<close> leaves it. Otherwise it returns \<^verbatim>\<open>True\<close>, and
  the store is the one \<^verbatim>\<open>stop_all_timers()\<close> leaves with the timer start applied to the
  current project: every project with another alias is as \<^verbatim>\<open>stop_all_timers()\<close> leaves
  it, and in the current project today's record is the stopped record started at the
  clock reading of the call; when a sub-activity is selected and found in that project,
  the same holds for today's record of the sub-activity.
\<close>

theorem C4_start_current_timer_stops_first:
  "fst (start_current_timer now today s) = (get_current_project s \<noteq> None)
   \<and> (get_current_project s = None \<longrightarrow>
        snd (start_current_timer now today s) = stop_all_timers now today s)
   \<and> (\<forall>project. get_current_project s = Some project \<longrightarrow>
        snd (start_current_timer now today s) =
          (stop_all_timers now today s)
          \<lparr>projects :=
             update_first (\<lambda>proj. project_alias proj = project_alias project)
               (start_project now today (current_sub_activity_alias s))
               (projects (stop_all_timers now today s))\<rparr>
        \<and> length (projects (snd (start_current_timer now today s))) = length (projects s)
        \<and> (\<forall>i. i < length (projects s)
               \<and> project_alias (projects s ! i) \<noteq> project_alias project \<longrightarrow>
             projects (snd (start_current_timer now today s)) ! i =
               stop_project now today (projects s ! i))
        \<and> (\<exists>project'.
           get_current_project (snd (start_current_timer now today s)) = Some project'
           \<and> project' =
               start_project now today (current_sub_activity_alias s)
                 (stop_project now today project)
           \<and> map_of (time_records project') today =
               Some (start_timing now (stopped_today now today (time_records project)))
           \<and> (\<forall>b sub. current_sub_activity_alias s = Some b \<and> b \<noteq> []
                  \<and> get_sub_activity b project = Some sub \<longrightarrow>
                (\<exists>sub'. get_sub_activity b project' = Some sub'
                   \<and> map_of (sub_time_records sub') today =
                       Some (start_timing now (stopped_today now today (sub_time_records sub)))))))"
proof (intro conjI allI impI)
  show "fst (start_current_timer now today s) = (get_current_project s \<noteq> None)"
    by (rule fst_start_current_timer)
  show "snd (start_current_timer now today s) = stop_all_timers now today s"
    if "get_current_project s = None"
    using that by (rule start_current_timer_no_project)
next
  fix project
  assume cur: "get_current_project s = Some project"
  show found: "snd (start_current_timer now today s) =
          (stop_all_timers now today s)
          \<lparr>projects :=
             update_first (\<lambda>proj. project_alias proj = project_alias project)
               (start_project now today (current_sub_activity_alias s))
               (projects (stop_all_timers now today s))\<rparr>"
    using cur by (rule start_current_timer_found)
  show "length (projects (snd (start_current_timer now today s))) = length (projects s)"
    by (simp add: found) (simp add: stop_all_timers_def)
  show "projects (snd (start_current_timer now today s)) ! i =
          stop_project now today (projects s ! i)"
    if "i < length (projects s) \<and> project_alias (projects s ! i) \<noteq> project_alias project" for i
    using other_project_stopped [OF cur] that by blast
  let ?p' = "start_project now today (current_sub_activity_alias s) (stop_project now today project)"
  have "get_current_project (snd (start_current_timer now today s)) = Some ?p'"
    using cur by (rule get_current_project_start)
  moreover have "map_of (time_records ?p') today =
      Some (start_timing now (stopped_today now today (time_records project)))"
    by (rule time_records_start_stop)
  moreover have "\<exists>sub'. get_sub_activity b ?p' = Some sub'
      \<and> map_of (sub_time_records sub') today =
          Some (start_timing now (stopped_today now today (sub_time_records sub)))"
    if "current_sub_activity_alias s = Some b \<and> b \<noteq> [] \<and> get_sub_activity b project = Some sub"
    for b sub
    using that get_sub_activity_start_stop [of b project sub now today] sub_records_start_stop
    by simp
  ultimately show "\<exists>project'.
           get_current_project (snd (start_current_timer now today s)) = Some project'
           \<and> project' =
               start_project now today (current_sub_activity_alias s)
                 (stop_project now today project)
           \<and> map_of (time_records project') today =
               Some (start_timing now (stopped_today now today (time_records project)))
           \<and> (\<forall>b sub. current_sub_activity_alias s = Some b \<and> b \<noteq> []
                  \<and> get_sub_activity b project = Some sub \<longrightarrow>
                (\<exists>sub'. get_sub_activity b project' = Some sub'
                   \<and> map_of (sub_time_records sub') today =
                       Some (start_timing now (stopped_today now today (sub_time_records sub)))))"
    by blast
qed

text \<open>
  In the store with two projects the call for \<^verbatim>\<open>alpha\<close> stops the running record of
  \<^verbatim>\<open>beta\<close>, which banks its 3 s, and starts today's record of \<^verbatim>\<open>alpha\<close>; in the loaded
  store, where nothing is selected, the call is \<^verbatim>\<open>stop_all_timers\<close> returning
  \<^verbatim>\<open>False\<close>.
\<close>

theorem C4_start_current_timer_stops_first_witness:
  "get_current_project store_loaded = None
   \<and> start_current_timer 4000000 ''2025-08-13'' store_loaded =
       (False, stop_all_timers 4000000 ''2025-08-13'' store_loaded)
   \<and> get_current_project store_two = Some alpha
   \<and> (1::nat) < length (projects store_two)
   \<and> project_alias (projects store_two ! 1) \<noteq> project_alias alpha
   \<and> fst (start_current_timer 4000000 ''2025-08-13'' store_two) = True
   \<and> projects (snd (start_current_timer 4000000 ''2025-08-13'' store_two)) =
       [alpha\<lparr>time_records :=
                [(''2025-08-13'',
                  (new_record ''2025-08-13'')\<lparr>is_running := True, last_started := Some 4000000\<rparr>)]\<rparr>,
        beta\<lparr>time_records :=
                [(''2025-08-13'',
                  today_running\<lparr>total_seconds := 10, is_running := False, last_started := None\<rparr>)]\<rparr>]"
proof -
  let ?r = "start_current_timer 4000000 ''2025-08-13'' store_loaded"
  let ?r' = "start_current_timer 4000000 ''2025-08-13'' store_two"
  have none: "get_current_project store_loaded = None"
    by (simp add: get_current_project_def example_defs)
  note inst0 = C4_start_current_timer_stops_first [of 4000000 "''2025-08-13''" store_loaded]
  have "fst ?r = False" "snd ?r = stop_all_timers 4000000 ''2025-08-13'' store_loaded"
    using inst0 none by simp_all
  then have first: "?r = (False, stop_all_timers 4000000 ''2025-08-13'' store_loaded)"
    by (simp add: prod_eq_iff)
  have cur: "get_current_project store_two = Some alpha"
    by (simp add: get_current_project_def get_project_def example_defs)
  have idx: "(1::nat) < length (projects store_two)"
    "project_alias (projects store_two ! 1) \<noteq> project_alias alpha"
    by (simp_all add: example_defs)
  note inst1 = C4_start_current_timer_stops_first [of 4000000 "''2025-08-13''" store_two]
  have ret: "fst ?r' = True"
    using inst1 cur by simp
  have whole: "snd ?r' =
      (stop_all_timers 4000000 ''2025-08-13'' store_two)
      \<lparr>projects :=
         update_first (\<lambda>proj. project_alias proj = project_alias alpha)
           (start_project 4000000 ''2025-08-13'' (current_sub_activity_alias store_two))
           (projects (stop_all_timers 4000000 ''2025-08-13'' store_two))\<rparr>"
    using inst1 cur by blast
  have "projects (snd ?r') =
       [alpha\<lparr>time_records :=
                [(''2025-08-13'',
                  (new_record ''2025-08-13'')\<lparr>is_running := True, last_started := Some 4000000\<rparr>)]\<rparr>,
        beta\<lparr>time_records :=
                [(''2025-08-13'',
                  today_running\<lparr>total_seconds := 10, is_running := False, last_started := None\<rparr>)]\<rparr>]"
    unfolding whole by (simp add: model_defs example_defs Let_def py_round_values)
  then show ?thesis
    using none first cur idx ret by simp
qed

section \<open>Loading\<close>


text \<open>
  A project object without its required fields makes the dataclass constructor raise a
  \<^verbatim>\<open>TypeError\<close>, which the \<^verbatim>\<open>except\<close> clause of \<^verbatim>\<open>load_projects\<close> does not name:
  the exception leaves the method.
\<close>

lemma load_projects_missing_field_raises:
  "fst (load_projects (file_system0\<lparr>fs_data_file := Some (Document document_missing_fields)\<rparr>)
          (new_store ''data'' config0 300 0)) = Inl TypeError"
  by (simp add: load_projects_def file_system0_def document_missing_fields_def
      project_of_data_def new_store_def)



section \<open>Backups\<close>

subsection \<open>One cleanup and one save\<close>

lemma keys_unlink_each:
  "map fst (unlink_each [] olds files) = filter (\<lambda>n. n \<notin> set olds) (map fst files)"
proof (induction olds arbitrary: files)
  case Nil
  show ?case by simp
next
  case (Cons old rest)
  have "filter (\<lambda>n. n \<notin> set rest) (removeAll old (map fst files))
      = filter (\<lambda>n. n \<notin> set (old # rest)) (map fst files)"
    by (induction files) auto
  then show ?case
    by (simp add: Cons.IH delete_keys)
qed

lemma distinct_unlink_each:
  "distinct (map fst files) \<Longrightarrow> distinct (map fst (unlink_each und olds files))"
  by (induction olds arbitrary: files) (simp_all add: distinct_delete)

lemma filter_not_in_take:
  "distinct xs \<Longrightarrow> filter (\<lambda>x. x \<notin> set (take m xs)) xs = drop m xs"
proof (induction xs arbitrary: m)
  case Nil
  show ?case by simp
next
  case (Cons x xs)
  show ?case
  proof (cases m)
    case 0
    then show ?thesis by simp
  next
    case (Suc m')
    have "filter (\<lambda>y. y \<noteq> x \<and> y \<notin> set (take m' xs)) xs
        = filter (\<lambda>y. y \<notin> set (take m' xs)) xs"
      using Cons.prems by (intro filter_cong) auto
    then show ?thesis
      using Cons Suc by simp
  qed
qed

lemma backup_files_update:
  "backup_files s (fs\<lparr>fs_backups := files\<rparr>) =
     sort (filter (fs_glob fs (backup_pattern (data_file_stem s))) (map fst files))"
  by (simp add: backup_files_def)

lemma cleanup_not_exceeded:
  "\<not> int (length (backup_files s fs)) > max_backups (config s) \<Longrightarrow> cleanup_old_backups w s fs = fs"
  by (simp add: cleanup_old_backups_def Let_def)

lemma cleanup_exceeded:
  assumes k: "1 \<le> max_backups (config s)"
    and ex: "int (length (backup_files s fs)) > max_backups (config s)"
    and und: "io_undeletable w = []"
    and d: "distinct (map fst (fs_backups fs))"
  shows "backup_files s (cleanup_old_backups w s fs) =
           drop (length (backup_files s fs) - nat (max_backups (config s))) (backup_files s fs)"
proof -
  let ?B = "backup_files s fs"
  let ?m = "length ?B - nat (max_backups (config s))"
  have slice: "py_slice_upto (- max_backups (config s)) ?B = take ?m ?B"
    using k by (simp add: py_slice_upto_def)
  have dB: "distinct ?B"
    using d by (simp add: backup_files_def distinct_map_filter)
  have c: "cleanup_old_backups w s fs =
      fs\<lparr>fs_backups := unlink_each [] (take ?m ?B) (fs_backups fs)\<rparr>"
    using ex by (simp add: cleanup_old_backups_def Let_def slice und)
  have "backup_files s (cleanup_old_backups w s fs) =
          sort (filter (fs_glob fs (backup_pattern (data_file_stem s)))
            (filter (\<lambda>n. n \<notin> set (take ?m ?B)) (map fst (fs_backups fs))))"
    by (simp only: c backup_files_update keys_unlink_each)
  also have "\<dots> = filter (\<lambda>n. n \<notin> set (take ?m ?B)) ?B"
    by (simp add: backup_files_def filter_sort conj_commute)
  also have "\<dots> = drop ?m ?B"
    using dB by (rule filter_not_in_take)
  finally show ?thesis .
qed

lemma cleanup_newest:
  assumes "1 \<le> max_backups (config s)" "io_undeletable w = []" "distinct (map fst (fs_backups fs))"
  shows "backup_files s (cleanup_old_backups w s fs) =
           newest (nat (max_backups (config s))) (backup_files s fs)"
proof (cases "int (length (backup_files s fs)) > max_backups (config s)")
  case True
  then show ?thesis
    using cleanup_exceeded [OF assms(1) True assms(2,3)] by (simp add: newest_def)
next
  case False
  then have "length (backup_files s fs) - nat (max_backups (config s)) = 0"
    by simp
  then show ?thesis
    using False by (simp add: cleanup_not_exceeded newest_def)
qed

lemma distinct_cleanup:
  "distinct (map fst (fs_backups fs)) \<Longrightarrow>
     distinct (map fst (fs_backups (cleanup_old_backups w s fs)))"
  by (simp add: cleanup_old_backups_def Let_def distinct_unlink_each)

lemma fs_data_file_cleanup [simp]:
  "fs_data_file (cleanup_old_backups w s fs) = fs_data_file fs"
  by (simp add: cleanup_old_backups_def Let_def)

lemma fs_glob_cleanup [simp]:
  "fs_glob (cleanup_old_backups w s fs) = fs_glob fs"
  by (simp add: cleanup_old_backups_def Let_def)

lemma fs_writes_cleanup [simp]:
  "fs_writes (cleanup_old_backups w s fs) = fs_writes fs"
  by (simp add: cleanup_old_backups_def Let_def)

lemma insort_snoc:
  fixes n :: "'a::linorder"
  shows "x \<le> n \<Longrightarrow> insort x (ys @ [n]) = insort x ys @ [n]"
  by (induction ys) auto

lemma sort_snoc:
  fixes n :: "'a::linorder"
  assumes "\<forall>x \<in> set xs. x \<le> n"
  shows "sort (xs @ [n]) = sort xs @ [n]"
  using assms
proof (induction xs)
  case Nil
  show ?case by simp
next
  case (Cons x xs)
  then show ?case
    by (simp add: insort_snoc)
qed

lemma backup_files_cong:
  "data_file_stem s' = data_file_stem s \<Longrightarrow> backup_files s' fs = backup_files s fs"
  by (simp add: backup_files_def)

lemma newest_append_right: "drop (length xs - k) (xs @ ys) = newest k xs @ ys"
  by (simp add: newest_def)

lemma newest_newest_append:
  "newest k (newest k xs @ ys) = newest k (xs @ ys)"
proof (cases "length xs \<le> k")
  case True
  then show ?thesis by (simp add: newest_def)
next
  case False
  define zs where "zs = drop (length xs - k) xs"
  have l: "length zs = k"
    using False by (simp add: zs_def)
  have "newest k (zs @ ys) = drop (length ys) (zs @ ys)"
    by (simp add: newest_def l)
  also have "\<dots> = drop (length ys) zs @ drop (length ys - k) ys"
    by (simp add: l)
  also have "drop (length ys) zs = drop (length ys + (length xs - k)) xs"
    by (simp add: zs_def)
  also have "length ys + (length xs - k) = length xs + length ys - k"
    using False by simp
  also have "drop (length xs + length ys - k) xs @ drop (length ys - k) ys = newest k (xs @ ys)"
    by (simp add: newest_def)
  finally show ?thesis
    by (simp add: newest_def zs_def)
qed

lemma create_backup_step:
  assumes k: "1 \<le> max_backups (config s)"
    and nf: "no_faults w"
    and d: "distinct (map fst (fs_backups fs))"
    and present: "fs_data_file fs = Some content"
    and newer: "\<forall>b \<in> set (backup_files s fs). b < backup_name (data_file_stem s) (io_stamp w)"
    and m: "fs_glob fs (backup_pattern (data_file_stem s))
              (backup_name (data_file_stem s) (io_stamp w))"
  shows "backup_files s (create_backup w s fs) =
           newest (nat (max_backups (config s)))
             (backup_files s fs @ [backup_name (data_file_stem s) (io_stamp w)])"
    and "distinct (map fst (fs_backups (create_backup w s fs)))"
    and "fs_data_file (create_backup w s fs) = Some content"
    and "fs_glob (create_backup w s fs) = fs_glob fs"
    and "fs_writes (create_backup w s fs) = fs_writes fs"
proof -
  let ?n = "backup_name (data_file_stem s) (io_stamp w)"
  let ?fs1 = "fs\<lparr>fs_backups := AList.update ?n content (fs_backups fs)\<rparr>"
  have cb: "create_backup w s fs = cleanup_old_backups w s ?fs1"
    using nf present by (simp add: create_backup_def no_faults_def)
  have und: "io_undeletable w = []"
    using nf by (simp add: no_faults_def)
  have fresh: "?n \<notin> set (map fst (fs_backups fs))"
  proof
    assume "?n \<in> set (map fst (fs_backups fs))"
    then have "?n \<in> set (backup_files s fs)"
      using m by (simp add: backup_files_def)
    then show False
      using newer by auto
  qed
  have d1: "distinct (map fst (fs_backups ?fs1))"
    using d by (simp add: distinct_update)
  have "backup_files s ?fs1 =
      sort (filter (fs_glob fs (backup_pattern (data_file_stem s))) (map fst (fs_backups fs)) @ [?n])"
    using fresh m by (simp add: backup_files_update update_keys)
  also have "\<dots> = backup_files s fs @ [?n]"
    using newer by (subst sort_snoc) (auto simp: backup_files_def less_imp_le)
  finally have b1: "backup_files s ?fs1 = backup_files s fs @ [?n]" .
  show "backup_files s (create_backup w s fs) =
          newest (nat (max_backups (config s))) (backup_files s fs @ [?n])"
    using cleanup_newest [OF k und d1] by (simp add: cb b1)
  show "distinct (map fst (fs_backups (create_backup w s fs)))"
    using distinct_cleanup [OF d1] by (simp add: cb)
  show "fs_data_file (create_backup w s fs) = Some content"
    using present by (simp add: cb)
  show "fs_glob (create_backup w s fs) = fs_glob fs"
    "fs_writes (create_backup w s fs) = fs_writes fs"
    by (simp_all add: cb)
qed

lemma save_forced_no_faults:
  assumes "no_faults w"
  shows "save_projects True now w s fs =
           (True, s\<lparr>last_save_time := now\<rparr>,
            (if backup_enabled (config s) \<and> fs_data_file fs \<noteq> None
             then create_backup w s fs else fs)
            \<lparr>fs_data_file := Some (Document (document_of_store now s)),
              fs_writes :=
                fs_writes (if backup_enabled (config s) \<and> fs_data_file fs \<noteq> None
                           then create_backup w s fs else fs) + 1\<rparr>)"
  using assms by (simp add: save_projects_def no_faults_def Let_def)

lemma save_step_existing:
  assumes k: "1 \<le> max_backups (config s)"
    and en: "backup_enabled (config s)"
    and nf: "no_faults w"
    and d: "distinct (map fst (fs_backups fs))"
    and present: "fs_data_file fs \<noteq> None"
    and newer: "\<forall>b \<in> set (backup_files s fs). b < backup_name (data_file_stem s) (io_stamp w)"
    and m: "fs_glob fs (backup_pattern (data_file_stem s))
              (backup_name (data_file_stem s) (io_stamp w))"
    and res: "save_projects True now w s fs = (saved, s', fs')"
  shows "backup_files s fs' =
           newest (nat (max_backups (config s)))
             (backup_files s fs @ [backup_name (data_file_stem s) (io_stamp w)])"
    and "distinct (map fst (fs_backups fs'))"
    and "fs_data_file fs' \<noteq> None"
    and "data_file_stem s' = data_file_stem s" and "config s' = config s"
    and "fs_glob fs' = fs_glob fs"
proof -
  obtain content where c: "fs_data_file fs = Some content"
    using present by auto
  have fs': "fs' = (create_backup w s fs)
        \<lparr>fs_data_file := Some (Document (document_of_store now s)),
          fs_writes := fs_writes (create_backup w s fs) + 1\<rparr>"
    and s': "s' = s\<lparr>last_save_time := now\<rparr>"
    using res en present by (simp_all add: save_forced_no_faults [OF nf])
  note cb = create_backup_step [OF k nf d c newer m]
  show "backup_files s fs' =
           newest (nat (max_backups (config s)))
             (backup_files s fs @ [backup_name (data_file_stem s) (io_stamp w)])"
    using cb(1) by (simp add: fs' backup_files_def)
  show "distinct (map fst (fs_backups fs'))"
    using cb(2) by (simp add: fs')
  show "fs_data_file fs' \<noteq> None"
    by (simp add: fs')
  show "data_file_stem s' = data_file_stem s" "config s' = config s"
    by (simp_all add: s')
  show "fs_glob fs' = fs_glob fs"
    using cb(4) by (simp add: fs')
qed

lemma save_step_first:
  assumes nf: "no_faults w"
    and present: "fs_data_file fs = None"
    and res: "save_projects True now w s fs = (saved, s', fs')"
  shows "fs_backups fs' = fs_backups fs"
    and "fs_data_file fs' \<noteq> None"
    and "data_file_stem s' = data_file_stem s" and "config s' = config s"
    and "fs_glob fs' = fs_glob fs"
  using res present by (auto simp: save_forced_no_faults [OF nf])

subsection \<open>A sequence of saves\<close>

lemma length_newest: "length (newest k xs) \<le> k"
  by (simp add: newest_def)

lemma newest_short: "length xs \<le> k \<Longrightarrow> newest k xs = xs"
  by (simp add: newest_def)

lemma save_all_existing:
  assumes "1 \<le> max_backups (config s)" "backup_enabled (config s)"
    and "\<forall>call \<in> set calls. no_faults (snd call)
           \<and> fs_glob fs (backup_pattern (data_file_stem s))
                 (backup_name (data_file_stem s) (io_stamp (snd call)))"
    and "distinct (map fst (fs_backups fs))"
    and "fs_data_file fs \<noteq> None"
    and "length (backup_files s fs) \<le> nat (max_backups (config s))"
    and "sorted_wrt (<) (backup_files s fs @ map (backup_name (data_file_stem s)) (stamps_of calls))"
  shows "backup_files s (snd (save_all calls s fs)) =
           newest (nat (max_backups (config s)))
             (backup_files s fs @ map (backup_name (data_file_stem s)) (stamps_of calls))"
  using assms
proof (induction calls arbitrary: s fs)
  case Nil
  then show ?case
    by (simp add: stamps_of_def newest_short)
next
  case (Cons call calls)
  obtain now w where call: "call = (now, w)"
    by (cases call)
  obtain saved s' fs' where res: "save_projects True now w s fs = (saved, s', fs')"
    by (cases "save_projects True now w s fs")
  let ?k = "nat (max_backups (config s))"
  let ?n = "backup_name (data_file_stem s) (io_stamp w)"
  let ?rest = "map (backup_name (data_file_stem s)) (stamps_of calls)"
  have sorted_all: "sorted_wrt (<) (backup_files s fs @ ?n # ?rest)"
    using Cons.prems(7) by (simp add: call stamps_of_def)
  then have newer: "\<forall>b \<in> set (backup_files s fs). b < ?n"
    by (auto simp: sorted_wrt_append)
  have nf: "no_faults w"
    and m: "fs_glob fs (backup_pattern (data_file_stem s)) ?n"
    using Cons.prems(3) by (simp_all add: call)
  note step = save_step_existing [OF Cons.prems(1,2) nf Cons.prems(4,5) newer m res]
  have b': "backup_files s' fs' = newest ?k (backup_files s fs @ [?n])"
    using step(1) by (simp add: backup_files_cong [OF step(4)])
  have "sorted_wrt (<) ((backup_files s fs @ [?n]) @ ?rest)"
    using sorted_all by simp
  then have "sorted_wrt (<) (drop (length (backup_files s fs @ [?n]) - ?k) ((backup_files s fs @ [?n]) @ ?rest))"
    by (rule sorted_wrt_drop)
  then have sorted': "sorted_wrt (<) (backup_files s' fs' @ ?rest)"
    by (simp only: b' newest_append_right)
  have "backup_files s' (snd (save_all calls s' fs')) =
          newest (nat (max_backups (config s')))
            (backup_files s' fs' @ map (backup_name (data_file_stem s')) (stamps_of calls))"
  proof (rule Cons.IH)
    show "1 \<le> max_backups (config s')" "backup_enabled (config s')"
      using Cons.prems(1,2) step(5) by simp_all
    show "\<forall>call \<in> set calls. no_faults (snd call)
           \<and> fs_glob fs' (backup_pattern (data_file_stem s'))
                 (backup_name (data_file_stem s') (io_stamp (snd call)))"
      using Cons.prems(3) by (simp add: step(4,6))
    show "distinct (map fst (fs_backups fs'))" "fs_data_file fs' \<noteq> None"
      using step(2,3) by simp_all
    show "length (backup_files s' fs') \<le> nat (max_backups (config s'))"
      by (simp add: b' step(5) length_newest)
    show "sorted_wrt (<) (backup_files s' fs' @ map (backup_name (data_file_stem s')) (stamps_of calls))"
      using sorted' by (simp add: step(4))
  qed
  then have "backup_files s (snd (save_all calls s' fs')) =
          newest ?k (newest ?k (backup_files s fs @ [?n]) @ ?rest)"
    by (simp add: step(1,4,5) backup_files_cong [OF step(4)])
  also have "\<dots> = newest ?k ((backup_files s fs @ [?n]) @ ?rest)"
    by (rule newest_newest_append)
  finally show ?case
    by (simp add: call res stamps_of_def)
qed

lemma lexord_append_right:
  "length xs = length ys \<Longrightarrow> (xs, ys) \<in> lexord r \<Longrightarrow> (xs @ zs, ys @ zs) \<in> lexord r"
  by (induction xs ys rule: list_induct2) auto

lemma backup_name_mono:
  assumes "length t = length t'" "t < t'"
  shows "backup_name stem t < backup_name stem t'"
proof -
  have "(t @ ''.json'', t' @ ''.json'') \<in> lexord {(u, v). u < v}"
    using assms by (simp add: lexord_append_right list_less_def)
  then have "((stem @ ''_backup_'') @ t @ ''.json'', (stem @ ''_backup_'') @ t' @ ''.json'')
      \<in> lexord {(u, v). u < v}"
    by (rule lexord_append_leftI)
  then show ?thesis
    by (simp add: backup_name_def list_less_def)
qed

lemma sorted_backup_names:
  assumes "\<forall>t \<in> set ts. length t = n" "sorted_wrt (<) ts"
  shows "sorted_wrt (<) (map (backup_name stem) ts)"
  using assms by (induction ts) (auto simp: backup_name_mono)

lemma save_all_newest:
  assumes k: "1 \<le> max_backups (config s)" and en: "backup_enabled (config s)"
    and n: "max_backups (config s) < int (length calls)"
    and ok: "\<forall>call \<in> set calls. no_faults (snd call) \<and> length (io_stamp (snd call)) = 15
           \<and> fs_glob fs (backup_pattern (data_file_stem s))
                 (backup_name (data_file_stem s) (io_stamp (snd call)))"
    and inc: "sorted_wrt (<) (stamps_of calls)"
    and d: "distinct (map fst (fs_backups fs))"
    and empty: "backup_files s fs = []"
  shows "backup_files s (snd (save_all calls s fs)) =
           map (backup_name (data_file_stem s))
             (drop (length calls - nat (max_backups (config s))) (stamps_of calls))"
proof -
  let ?k = "nat (max_backups (config s))"
  let ?names = "\<lambda>cs. map (backup_name (data_file_stem s)) (stamps_of cs)"
  have len: "\<forall>t \<in> set (stamps_of calls). length t = 15"
    using ok by (auto simp: stamps_of_def)
  have sorted_names: "sorted_wrt (<) (?names calls)"
    using len inc by (rule sorted_backup_names)
  have nf: "\<forall>call \<in> set calls. no_faults (snd call)
           \<and> fs_glob fs (backup_pattern (data_file_stem s))
                 (backup_name (data_file_stem s) (io_stamp (snd call)))"
    using ok by simp
  show ?thesis
  proof (cases "fs_data_file fs")
    case (Some content)
    then have "backup_files s (snd (save_all calls s fs)) = newest ?k (backup_files s fs @ ?names calls)"
      using save_all_existing [OF k en nf d] sorted_names empty by simp
    then show ?thesis
      by (simp add: empty newest_def drop_map stamps_of_def)
  next
    case None
    obtain call rest where calls: "calls = call # rest"
      using n k by (cases calls) auto
    obtain now w where call: "call = (now, w)"
      by (cases call)
    obtain saved s' fs' where res: "save_projects True now w s fs = (saved, s', fs')"
      by (cases "save_projects True now w s fs")
    have nfw: "no_faults w"
      using nf by (simp add: calls call)
    note first = save_step_first [OF nfw None res]
    have b': "backup_files s' fs' = []" and b0: "backup_files s fs' = []"
      using empty first(1,3,5) by (simp_all add: backup_files_def)
    have "backup_files s' (snd (save_all rest s' fs')) =
        newest (nat (max_backups (config s')))
          (backup_files s' fs' @ map (backup_name (data_file_stem s')) (stamps_of rest))"
    proof (rule save_all_existing)
      show "1 \<le> max_backups (config s')" "backup_enabled (config s')"
        using k en first(4) by simp_all
      show "\<forall>call \<in> set rest. no_faults (snd call)
           \<and> fs_glob fs' (backup_pattern (data_file_stem s'))
                 (backup_name (data_file_stem s') (io_stamp (snd call)))"
        using nf by (simp add: calls first(3,5))
      show "distinct (map fst (fs_backups fs'))" "fs_data_file fs' \<noteq> None"
        using d first(1,2) by simp_all
      show "length (backup_files s' fs') \<le> nat (max_backups (config s'))"
        by (simp add: b')
      show "sorted_wrt (<) (backup_files s' fs' @ map (backup_name (data_file_stem s')) (stamps_of rest))"
        using sorted_names by (simp add: b' first(3) calls stamps_of_def)
    qed
    then have "backup_files s (snd (save_all calls s fs)) = newest ?k (?names rest)"
      by (simp add: b0 first(3,4) calls call res backup_files_cong [OF first(3)])
    moreover have "length calls - ?k = Suc (length rest - ?k)"
      using n k by (simp add: calls)
    ultimately show ?thesis
      by (simp add: newest_def drop_map stamps_of_def calls)
  qed
qed

subsection \<open>The retention of backups\<close>

text \<open>
  Under the matching \<open>star_glob\<close> the name of a backup matches the pattern of its data
  file when the stem of the data file has no \<^verbatim>\<open>*\<close> in it.
\<close>

lemma star_glob_literal: "CHR ''*'' \<notin> set q \<Longrightarrow> star_glob q q"
  by (induction q) auto

lemma star_glob_star:
  assumes "CHR ''*'' \<notin> set q"
  shows "star_glob (CHR ''*'' # q) (t @ q)"
proof (induction t)
  case Nil
  show ?case
    using star_glob_literal [OF assms] by (cases q) auto
next
  case (Cons x t)
  then show ?case by simp
qed

lemma star_glob_prefix:
  "CHR ''*'' \<notin> set p \<Longrightarrow> star_glob (p @ q) (p @ n) = star_glob q n"
  by (induction p) auto

lemma star_glob_backup_name:
  assumes "CHR ''*'' \<notin> set stem"
  shows "star_glob (backup_pattern stem) (backup_name stem timestamp)"
proof -
  have "star_glob ((stem @ ''_backup_'') @ CHR ''*'' # ''.json'')
      ((stem @ ''_backup_'') @ timestamp @ ''.json'')
      = star_glob (CHR ''*'' # ''.json'') (timestamp @ ''.json'')"
    using assms by (intro star_glob_prefix) simp
  moreover have "star_glob (CHR ''*'' # ''.json'') (timestamp @ ''.json'')"
    by (rule star_glob_star) simp
  ultimately show ?thesis
    by (simp add: backup_pattern_def backup_name_def)
qed

text \<open>
  Claim C7, as stated: after \<open>N\<close> saves with backups enabled and \<^verbatim>\<open>max_backups = k\<close>,
  \<open>k < N\<close>, exactly \<open>k\<close> backups remain. A backup is named after the second in which it
  is made, so saves within one second write the same backup file: after three saves in
  the same second, with \<open>k = 2\<close>, there is one backup.
\<close>

theorem C7_same_second_saves_counterexample:
  "backup_files store_keep2
     (snd (save_all
        [(0, world ''20250813_120000''), (1000, world ''20250813_120000''),
         (2000, world ''20250813_120000'')]
        store_keep2 file_system0))
   = [''data_backup_20250813_120000.json'']"
  by (simp add: persistence_defs example_defs Let_def)

text \<open>
  With \<^verbatim>\<open>max_backups = 0\<close> the slice \<^verbatim>\<open>backup_files[:-max_backups]\<close> is
  \<^verbatim>\<open>backup_files[:0]\<close>, the empty list, and the cleanup deletes nothing although the
  count exceeds the maximum.
\<close>

lemma cleanup_zero_keeps_all:
  "max_backups (config s) = 0 \<Longrightarrow> cleanup_old_backups w s fs = fs"
  by (simp add: cleanup_old_backups_def Let_def py_slice_upto_def)

lemma cleanup_keeps_everything_when_max_is_zero:
  "backup_files (store_alpha\<lparr>config := config0\<lparr>max_backups := 0\<rparr>\<rparr>)
     (cleanup_old_backups (world ''20250813_120000'')
        (store_alpha\<lparr>config := config0\<lparr>max_backups := 0\<rparr>\<rparr>) three_backups)
   = [''data_backup_20250813_120000.json'', ''data_backup_20250813_120001.json'',
      ''data_backup_20250813_120002.json'']"
  by (simp add: persistence_defs example_defs Let_def)

text \<open>
  Claim C7, amended. The cleanup compares the number of backup files that match the
  pattern with \<^verbatim>\<open>max_backups\<close> by strict greater-than and does nothing when it is not
  exceeded. When it is exceeded, \<^verbatim>\<open>max_backups\<close> is at least 1 and the deletions
  succeed, it deletes the first files in file name order until \<^verbatim>\<open>max_backups\<close> files
  are left, whatever the matching of \<^verbatim>\<open>Path.glob\<close> is. Hence after \<open>N\<close> saves at which
  nothing fails, made in different seconds in increasing order of their timestamps, with
  backups enabled, \<open>1 \<le> k < N\<close>, no backup of this data file in the directory before,
  and the names of the new backups matching the pattern (which a stem of the data file
  with a wildcard character of \<^verbatim>\<open>Path.glob\<close> in it may prevent), exactly \<open>k\<close> backups
  remain, and they are the ones with the last \<open>k\<close> timestamps.
\<close>

theorem C7_backup_retention:
  "(\<not> int (length (backup_files s fs)) > max_backups (config s) \<longrightarrow>
      cleanup_old_backups w s fs = fs)
   \<and> (1 \<le> max_backups (config s) \<and> int (length (backup_files s fs)) > max_backups (config s)
        \<and> io_undeletable w = [] \<and> distinct (map fst (fs_backups fs)) \<longrightarrow>
        backup_files s (cleanup_old_backups w s fs) =
          drop (length (backup_files s fs) - nat (max_backups (config s))) (backup_files s fs)
        \<and> int (length (backup_files s (cleanup_old_backups w s fs))) = max_backups (config s))
   \<and> (backup_enabled (config s) \<and> 1 \<le> max_backups (config s)
        \<and> max_backups (config s) < int (length calls)
        \<and> (\<forall>call \<in> set calls. no_faults (snd call) \<and> length (io_stamp (snd call)) = 15
              \<and> fs_glob fs (backup_pattern (data_file_stem s))
                    (backup_name (data_file_stem s) (io_stamp (snd call))))
        \<and> sorted_wrt (<) (stamps_of calls)
        \<and> distinct (map fst (fs_backups fs)) \<and> backup_files s fs = [] \<longrightarrow>
        backup_files s (snd (save_all calls s fs)) =
          map (backup_name (data_file_stem s))
            (drop (length calls - nat (max_backups (config s))) (stamps_of calls))
        \<and> int (length (backup_files s (snd (save_all calls s fs)))) = max_backups (config s))"
proof (intro conjI impI)
  show "cleanup_old_backups w s fs = fs"
    if "\<not> int (length (backup_files s fs)) > max_backups (config s)"
    using that by (rule cleanup_not_exceeded)
next
  assume h: "1 \<le> max_backups (config s) \<and> int (length (backup_files s fs)) > max_backups (config s)
        \<and> io_undeletable w = [] \<and> distinct (map fst (fs_backups fs))"
  then show c: "backup_files s (cleanup_old_backups w s fs) =
          drop (length (backup_files s fs) - nat (max_backups (config s))) (backup_files s fs)"
    using cleanup_exceeded [of s fs w] by blast
  have "length (backup_files s fs) - (length (backup_files s fs) - nat (max_backups (config s)))
      = nat (max_backups (config s))"
    using h by linarith
  then show "int (length (backup_files s (cleanup_old_backups w s fs))) = max_backups (config s)"
    using h by (simp add: c)
next
  assume h: "backup_enabled (config s) \<and> 1 \<le> max_backups (config s)
        \<and> max_backups (config s) < int (length calls)
        \<and> (\<forall>call \<in> set calls. no_faults (snd call) \<and> length (io_stamp (snd call)) = 15
              \<and> fs_glob fs (backup_pattern (data_file_stem s))
                    (backup_name (data_file_stem s) (io_stamp (snd call))))
        \<and> sorted_wrt (<) (stamps_of calls)
        \<and> distinct (map fst (fs_backups fs)) \<and> backup_files s fs = []"
  then show c: "backup_files s (snd (save_all calls s fs)) =
          map (backup_name (data_file_stem s))
            (drop (length calls - nat (max_backups (config s))) (stamps_of calls))"
    using save_all_newest [of s calls fs] by blast
  have "length calls - (length calls - nat (max_backups (config s))) = nat (max_backups (config s))"
    using h by linarith
  then show "int (length (backup_files s (snd (save_all calls s fs)))) = max_backups (config s)"
    using h by (simp add: c stamps_of_def)
qed

text \<open>
  The backup directory \<open>three_backups\<close> holds three backups, one more than the store
  keeps, and the cleanup deletes the oldest; an empty directory is left as it is. Four
  saves in four different seconds, the first of which finds no data file to copy, make
  three backups, of which the first is deleted at the fourth save.
\<close>

theorem C7_backup_retention_witness:
  "backup_files store_keep2 three_backups =
     [''data_backup_20250813_120000.json'', ''data_backup_20250813_120001.json'',
      ''data_backup_20250813_120002.json'']
   \<and> backup_files store_keep2 (cleanup_old_backups (world ''none'') store_keep2 three_backups)
     = [''data_backup_20250813_120001.json'', ''data_backup_20250813_120002.json'']
   \<and> backup_files store_keep2
       (snd (save_all
          [(0, world ''20250813_120000''), (1000000, world ''20250813_120001''),
           (2000000, world ''20250813_120002''), (3000000, world ''20250813_120003'')]
          store_keep2 file_system0))
     = [''data_backup_20250813_120002.json'', ''data_backup_20250813_120003.json'']
   \<and> cleanup_old_backups (world ''none'') store_keep2 file_system0 = file_system0"
proof -
  let ?calls = "[(0::int, world ''20250813_120000''), (1000000, world ''20250813_120001''),
           (2000000, world ''20250813_120002''), (3000000, world ''20250813_120003'')]"
  let ?fs = "file_system0"
  have b: "backup_files store_keep2 three_backups =
      [''data_backup_20250813_120000.json'', ''data_backup_20250813_120001.json'',
       ''data_backup_20250813_120002.json'']"
    by (simp add: persistence_defs example_defs Let_def)
  have h1: "1 \<le> max_backups (config store_keep2)
      \<and> int (length (backup_files store_keep2 three_backups)) > max_backups (config store_keep2)
      \<and> io_undeletable (world ''none'') = [] \<and> distinct (map fst (fs_backups three_backups))"
    unfolding b by (simp add: persistence_defs example_defs)
  have h0: "\<not> int (length (backup_files store_keep2 file_system0))
      > max_backups (config store_keep2)"
    by (simp add: persistence_defs example_defs)
  have c0: "cleanup_old_backups (world ''none'') store_keep2 file_system0 = file_system0"
    using C7_backup_retention [of store_keep2 file_system0 "world ''none''" ?calls,
        THEN conjunct1, THEN mp, OF h0] .
  have h2: "backup_enabled (config store_keep2) \<and> 1 \<le> max_backups (config store_keep2)
        \<and> max_backups (config store_keep2) < int (length ?calls)
        \<and> (\<forall>call \<in> set ?calls. no_faults (snd call) \<and> length (io_stamp (snd call)) = 15
              \<and> fs_glob ?fs (backup_pattern (data_file_stem store_keep2))
                    (backup_name (data_file_stem store_keep2) (io_stamp (snd call))))
        \<and> sorted_wrt (<) (stamps_of ?calls)
        \<and> distinct (map fst (fs_backups ?fs)) \<and> backup_files store_keep2 ?fs = []"
    by (simp add: persistence_defs example_defs)
  have c1: "backup_files store_keep2 (cleanup_old_backups (world ''none'') store_keep2 three_backups) =
      drop (length (backup_files store_keep2 three_backups) - nat (max_backups (config store_keep2)))
        (backup_files store_keep2 three_backups)"
    using C7_backup_retention [of store_keep2 three_backups "world ''none''" ?calls,
        THEN conjunct2, THEN conjunct1, THEN mp, OF h1]
    by (rule conjunct1)
  have c2: "backup_files store_keep2 (snd (save_all ?calls store_keep2 ?fs)) =
      map (backup_name (data_file_stem store_keep2))
        (drop (length ?calls - nat (max_backups (config store_keep2))) (stamps_of ?calls))"
    using C7_backup_retention [of store_keep2 ?fs "world ''none''" ?calls,
        THEN conjunct2, THEN conjunct2, THEN mp, OF h2]
    by (rule conjunct1)
  have "backup_files store_keep2 (cleanup_old_backups (world ''none'') store_keep2 three_backups)
     = [''data_backup_20250813_120001.json'', ''data_backup_20250813_120002.json'']"
    unfolding c1 b by (simp add: store_keep2_def example_defs)
  moreover have "backup_files store_keep2 (snd (save_all ?calls store_keep2 ?fs))
     = [''data_backup_20250813_120002.json'', ''data_backup_20250813_120003.json'']"
    unfolding c2 by (simp add: store_keep2_def example_defs stamps_of_def world_def backup_name_def)
  ultimately show ?thesis
    using b c0 by simp
qed

section \<open>Saving\<close>

subsection \<open>The comparison of the elapsed seconds with the interval\<close>

lemma round_half_even_ge:
  assumes "0 < d" and "q * d \<le> n"
  shows "q \<le> round_half_even n d"
proof -
  have "q \<le> n div d"
    using assms by (metis div_mult_self_is_m zdiv_mono1 nonzero_mult_div_cancel_right less_irrefl)
  then show ?thesis
    by (simp add: round_half_even_def Let_def)
qed

lemma round_half_even_le:
  assumes "0 < d" and "2 * (n - q * d) < d"
  shows "round_half_even n d \<le> q"
proof -
  have lt: "n < (q + 1) * d"
    using assms by (simp add: algebra_simps)
  have "0 \<le> n mod d"
    using assms(1) by simp
  moreover have "d * (n div d) + n mod d = n"
    by simp
  ultimately have low: "d * (n div d) \<le> n"
    by linarith
  have le: "n div d \<le> q"
  proof (rule ccontr)
    assume "\<not> n div d \<le> q"
    then have "q + 1 \<le> n div d"
      by simp
    then have "d * (q + 1) \<le> d * (n div d)"
      using assms(1) by (intro mult_left_mono) simp_all
    then show False
      using low lt by (simp add: algebra_simps)
  qed
  show ?thesis
  proof (cases "n div d = q")
    case True
    then have "n mod d = n - q * d"
      by (metis minus_div_mult_eq_mod)
    then show ?thesis
      using assms True by (simp add: round_half_even_def Let_def)
  next
    case False
    then have "n div d + 1 \<le> q"
      using le by simp
    then show ?thesis
      by (simp add: round_half_even_def Let_def)
  qed
qed

lemma round_half_even_gt:
  assumes "0 < d" and "d < 2 * (n - q * d)"
  shows "q < round_half_even n d"
proof -
  have "q * d \<le> n"
    using assms by (simp add: algebra_simps)
  then have le: "q \<le> n div d"
    using assms(1) by (metis zdiv_mono1 nonzero_mult_div_cancel_right less_irrefl)
  show ?thesis
  proof (cases "n div d = q")
    case True
    then have "n mod d = n - q * d"
      by (metis minus_div_mult_eq_mod)
    then show ?thesis
      using assms True by (simp add: round_half_even_def Let_def)
  next
    case False
    then have "q < n div d"
      using le by simp
    then show ?thesis
      by (simp add: round_half_even_def Let_def)
  qed
qed

lemma binade_shift_ge:
  "0 < a \<Longrightarrow> a * 2 ^ k < 9007199254740992000000 \<Longrightarrow> k \<le> binade_shift a"
proof (induction k arbitrary: a)
  case 0
  then show ?case by simp
next
  case (Suc k)
  have "(1::int) \<le> 2 ^ k"
    by simp
  then have "a * 1 \<le> a * 2 ^ k"
    using Suc.prems(1) by (intro mult_left_mono) simp_all
  moreover have "a * 2 ^ Suc k = 2 * (a * 2 ^ k)"
    by simp
  ultimately have small: "a < 4503599627370496000000"
    using Suc.prems(2) by linarith
  have "k \<le> binade_shift (2 * a)"
    using Suc.prems by (intro Suc.IH) (simp_all add: mult.assoc mult.left_commute)
  then show ?case
    using Suc.prems(1) small by (subst binade_shift.simps) simp
qed

lemma power_binade_shift:
  assumes "0 < a" and "a < 17179869184000000"
  shows "(500000::int) < 2 ^ binade_shift a"
proof -
  have "19 \<le> binade_shift a"
    using assms by (intro binade_shift_ge) simp_all
  then have "(2::int) ^ 19 \<le> 2 ^ binade_shift a"
    by (intro power_increasing) simp_all
  then show ?thesis
    by simp
qed

lemma total_seconds_less_exact:
  assumes "\<bar>us\<bar> < 17179869184000000"
  shows "total_seconds_less us seconds = (us < seconds * 1000000)"
proof -
  define s where "s = binade_shift \<bar>us\<bar>"
  define p :: int where "p = 2 ^ s"
  define m where "m = round_half_even (\<bar>us\<bar> * p) 1000000"
  have t: "total_seconds_less us seconds = ((if us < 0 then - m else m) < seconds * p)"
    by (simp add: total_seconds_less_def Let_def s_def p_def m_def)
  have p0: "0 < p"
    by (simp add: p_def)
  consider "us = 0" | "0 < us" | "us < 0"
    by linarith
  then show ?thesis
  proof cases
    case 1
    then have "m = 0"
      by (simp add: m_def round_half_even_def)
    then show ?thesis
      using 1 p0 t by (simp add: zero_less_mult_iff)
  next
    case 2
    then have p: "500000 < p"
      using assms power_binade_shift [of "\<bar>us\<bar>"] by (simp add: p_def s_def)
    show ?thesis
    proof (cases "us < seconds * 1000000")
      case True
      then have "us + 1 \<le> seconds * 1000000"
        by simp
      then have "(us + 1) * p \<le> (seconds * 1000000) * p"
        using p0 by (intro mult_right_mono) simp_all
      then have "2 * (\<bar>us\<bar> * p - (seconds * p - 1) * 1000000) < 1000000"
        using 2 p by (simp add: algebra_simps)
      then have "m \<le> seconds * p - 1"
        unfolding m_def by (intro round_half_even_le) simp_all
      then show ?thesis
        using True 2 t by simp
    next
      case False
      then have "seconds * 1000000 \<le> us"
        by simp
      then have "(seconds * 1000000) * p \<le> us * p"
        using p0 by (intro mult_right_mono) simp_all
      then have "(seconds * p) * 1000000 \<le> \<bar>us\<bar> * p"
        using 2 by (simp add: algebra_simps)
      then have "seconds * p \<le> m"
        unfolding m_def by (intro round_half_even_ge) simp_all
      then show ?thesis
        using False 2 t by simp
    qed
  next
    case 3
    then have p: "500000 < p"
      using assms power_binade_shift [of "\<bar>us\<bar>"] by (simp add: p_def s_def)
    show ?thesis
    proof (cases "us < seconds * 1000000")
      case True
      then have "- seconds * 1000000 + 1 \<le> - us"
        by simp
      then have "(- seconds * 1000000 + 1) * p \<le> (- us) * p"
        using p0 by (intro mult_right_mono) simp_all
      then have "1000000 < 2 * (\<bar>us\<bar> * p - (- seconds * p) * 1000000)"
        using 3 p by (simp add: algebra_simps)
      then have "- seconds * p < m"
        unfolding m_def by (intro round_half_even_gt) simp_all
      then show ?thesis
        using True 3 t by simp
    next
      case False
      then have "- us \<le> - seconds * 1000000"
        by simp
      then have "(- us) * p \<le> (- seconds * 1000000) * p"
        using p0 by (intro mult_right_mono) simp_all
      then have "2 * (\<bar>us\<bar> * p - (- seconds * p) * 1000000) < 1000000"
        using 3 by (simp add: algebra_simps)
      then have "m \<le> - seconds * p"
        unfolding m_def by (intro round_half_even_le) simp_all
      then show ?thesis
        using False 3 t by simp
    qed
  qed
qed

text \<open>Some values of the comparison, by evaluation.\<close>

lemma total_seconds_less_values:
  "total_seconds_less 1000000 300" "total_seconds_less 2000000 300"
  "total_seconds_less 299000000 300" "\<not> total_seconds_less 301000000 300"
  "\<not> total_seconds_less 300000000 300"
  "\<not> total_seconds_less 17179869184999999 17179869185"
  by code_simp+

subsection \<open>The debounce of save_projects\<close>

lemma fs_writes_create_backup:
  "fs_writes (create_backup w s fs) = fs_writes fs"
  by (simp add: create_backup_def split: option.splits)

lemma save_debounced:
  "total_seconds_less (now - last_save_time s) (auto_save_interval s) \<Longrightarrow>
     save_projects False now w s fs = (False, s, fs)"
  by (simp add: save_projects_def)

lemma save_last_save_time:
  "last_save_time (fst (snd (save_projects force now w s fs))) =
     (if fst (save_projects force now w s fs) then now else last_save_time s)"
  by (simp add: save_projects_def Let_def split: write_fault.splits)

lemma save_success_writes:
  "fst (save_projects force now w s fs) \<Longrightarrow>
     fs_data_file (snd (snd (save_projects force now w s fs))) =
       Some (Document (document_of_store now s))
     \<and> fs_writes (snd (snd (save_projects force now w s fs))) = fs_writes fs + 1"
  by (auto simp: save_projects_def Let_def fs_writes_create_backup
      split: write_fault.splits if_splits)

lemma save_due_succeeds:
  "force \<or> \<not> total_seconds_less (now - last_save_time s) (auto_save_interval s) \<Longrightarrow>
     \<not> io_mkdir_fails w \<Longrightarrow> io_write w = No_fault \<Longrightarrow>
     fst (save_projects force now w s fs)"
  by (auto simp: save_projects_def Let_def)

lemma save_interval_unchanged:
  "auto_save_interval (fst (snd (save_projects force now w s fs))) = auto_save_interval s"
  by (simp add: save_projects_def Let_def split: write_fault.splits)

lemma save_twice:
  assumes "fst (save_projects False now w s fs)"
    and "total_seconds_less (now' - now) (auto_save_interval s)"
  shows "save_projects False now' w' (fst (snd (save_projects False now w s fs)))
           (snd (snd (save_projects False now w s fs)))
         = (False, fst (snd (save_projects False now w s fs)),
            snd (snd (save_projects False now w s fs)))"
proof (rule save_debounced)
  show "total_seconds_less (now' - last_save_time (fst (snd (save_projects False now w s fs))))
      (auto_save_interval (fst (snd (save_projects False now w s fs))))"
    using assms by (simp add: save_last_save_time save_interval_unchanged)
qed

text \<open>
  A write that fails after the file has been opened leaves the last save time as it was,
  so that the next call opens the file again, however soon it comes.
\<close>

lemma save_after_failed_dump_writes_again:
  assumes "\<not> total_seconds_less (now - last_save_time s) (auto_save_interval s)"
    and "\<not> io_mkdir_fails w" and "io_write w = Dump_fails"
    and "\<not> total_seconds_less (now' - last_save_time s) (auto_save_interval s)"
    and "\<not> io_mkdir_fails w'" and "io_write w' = No_fault"
  shows "fs_writes (snd (snd (save_projects False now' w'
           (fst (snd (save_projects False now w s fs)))
           (snd (snd (save_projects False now w s fs)))))) = fs_writes fs + 2"
proof -
  have first: "fst (snd (save_projects False now w s fs)) = s"
    "fs_writes (snd (snd (save_projects False now w s fs))) = fs_writes fs + 1"
    using assms(1-3) by (simp_all add: save_projects_def Let_def fs_writes_create_backup)
  have "fst (save_projects False now' w' s (snd (snd (save_projects False now w s fs))))"
    using assms(4-6) by (intro save_due_succeeds) simp_all
  then show ?thesis
    using save_success_writes
      [of False now' w' s "snd (snd (save_projects False now w s fs))"]
    by (simp add: first)
qed

text \<open>
  Claim C8, as stated: two \<^verbatim>\<open>save(force=false)\<close> calls less than
  \<^verbatim>\<open>auto_save_interval\<close> seconds apart perform exactly one file write. When the last
  successful save is itself less than the interval before both, neither call writes:
  below the last save was at 0 s, the interval is 300 s and the calls come at 1 s and
  2 s; both return false, the data file is never opened for writing and does not exist
  afterwards.
\<close>

theorem C8_two_debounced_saves_write_nothing_counterexample:
  "fst (save_projects False 1000000 (world ''20250813_120001'')
          (store_alpha\<lparr>last_save_time := 0\<rparr>) file_system0) = False
   \<and> fst (save_projects False 2000000 (world ''20250813_120002'')
          (fst (snd (save_projects False 1000000 (world ''20250813_120001'')
             (store_alpha\<lparr>last_save_time := 0\<rparr>) file_system0)))
          (snd (snd (save_projects False 1000000 (world ''20250813_120001'')
             (store_alpha\<lparr>last_save_time := 0\<rparr>) file_system0)))) = False
   \<and> fs_writes
        (snd (snd (save_projects False 2000000 (world ''20250813_120002'')
          (fst (snd (save_projects False 1000000 (world ''20250813_120001'')
             (store_alpha\<lparr>last_save_time := 0\<rparr>) file_system0)))
          (snd (snd (save_projects False 1000000 (world ''20250813_120001'')
             (store_alpha\<lparr>last_save_time := 0\<rparr>) file_system0)))))) = 0
   \<and> fs_data_file
        (snd (snd (save_projects False 2000000 (world ''20250813_120002'')
          (fst (snd (save_projects False 1000000 (world ''20250813_120001'')
             (store_alpha\<lparr>last_save_time := 0\<rparr>) file_system0)))
          (snd (snd (save_projects False 1000000 (world ''20250813_120001'')
             (store_alpha\<lparr>last_save_time := 0\<rparr>) file_system0)))))) = None"
  by (simp add: save_projects_def store_alpha_def file_system0_def total_seconds_less_values)

text \<open>
  Claim C8, amended. \<^verbatim>\<open>save(force=false)\<close> at which
  \<^verbatim>\<open>(now - last_save_time).total_seconds() < auto_save_interval\<close> holds, which for a
  difference of less than \<open>2\<^sup>3\<^sup>4\<close> seconds says that less than \<^verbatim>\<open>auto_save_interval\<close>
  seconds have passed since the last successful save, is a no-op that returns false: the
  store and the file system, the data file and the backups, are as before. The last save
  time changes only when the call returns true, and then the data file holds the document
  just written and has been opened for writing once. A call that is forced or at which
  the comparison fails, and at which neither the creation of the directory nor the write
  fails, returns true. Consequently, of two \<^verbatim>\<open>save(force=false)\<close> calls less than
  \<^verbatim>\<open>auto_save_interval\<close> seconds apart, when the first is due and nothing fails at it,
  the first writes the file and the second is a no-op, which is exactly one file write;
  and when both come less than the interval after the last successful save, neither
  writes.
\<close>

theorem C8_save_is_debounced:
  "(\<bar>us\<bar> < 17179869184000000 \<longrightarrow>
      total_seconds_less us seconds = (us < seconds * 1000000))
   \<and> (total_seconds_less (now - last_save_time s) (auto_save_interval s) \<longrightarrow>
        save_projects False now w s fs = (False, s, fs))
   \<and> last_save_time (fst (snd (save_projects force now w s fs))) =
       (if fst (save_projects force now w s fs) then now else last_save_time s)
   \<and> (fst (save_projects force now w s fs) \<longrightarrow>
        fs_data_file (snd (snd (save_projects force now w s fs))) =
          Some (Document (document_of_store now s))
        \<and> fs_writes (snd (snd (save_projects force now w s fs))) = fs_writes fs + 1)
   \<and> ((force \<or> \<not> total_seconds_less (now - last_save_time s) (auto_save_interval s))
        \<and> \<not> io_mkdir_fails w \<and> io_write w = No_fault \<longrightarrow>
        fst (save_projects force now w s fs))
   \<and> (\<not> total_seconds_less (now - last_save_time s) (auto_save_interval s)
        \<and> \<not> io_mkdir_fails w \<and> io_write w = No_fault
        \<and> total_seconds_less (now' - now) (auto_save_interval s) \<longrightarrow>
        fst (save_projects False now w s fs)
        \<and> save_projects False now' w' (fst (snd (save_projects False now w s fs)))
             (snd (snd (save_projects False now w s fs)))
           = (False, fst (snd (save_projects False now w s fs)),
              snd (snd (save_projects False now w s fs)))
        \<and> fs_writes (snd (snd (save_projects False now' w'
             (fst (snd (save_projects False now w s fs)))
             (snd (snd (save_projects False now w s fs)))))) = fs_writes fs + 1)
   \<and> (total_seconds_less (now - last_save_time s) (auto_save_interval s)
        \<and> total_seconds_less (now' - last_save_time s) (auto_save_interval s) \<longrightarrow>
        save_projects False now' w' (fst (snd (save_projects False now w s fs)))
          (snd (snd (save_projects False now w s fs)))
        = (False, s, fs))"
proof (intro conjI impI)
  show "total_seconds_less us seconds = (us < seconds * 1000000)"
    if "\<bar>us\<bar> < 17179869184000000"
    using that by (rule total_seconds_less_exact)
next
  show "save_projects False now w s fs = (False, s, fs)"
    if "total_seconds_less (now - last_save_time s) (auto_save_interval s)"
    using that by (rule save_debounced)
next
  show "last_save_time (fst (snd (save_projects force now w s fs))) =
      (if fst (save_projects force now w s fs) then now else last_save_time s)"
    by (rule save_last_save_time)
next
  assume "fst (save_projects force now w s fs)"
  then show "fs_data_file (snd (snd (save_projects force now w s fs))) =
      Some (Document (document_of_store now s))"
    and "fs_writes (snd (snd (save_projects force now w s fs))) = fs_writes fs + 1"
    using save_success_writes [of force now w s fs] by simp_all
next
  show "fst (save_projects force now w s fs)"
    if "(force \<or> \<not> total_seconds_less (now - last_save_time s) (auto_save_interval s))
        \<and> \<not> io_mkdir_fails w \<and> io_write w = No_fault"
    using that by (intro save_due_succeeds) simp_all
next
  assume h: "\<not> total_seconds_less (now - last_save_time s) (auto_save_interval s)
        \<and> \<not> io_mkdir_fails w \<and> io_write w = No_fault
        \<and> total_seconds_less (now' - now) (auto_save_interval s)"
  then show first: "fst (save_projects False now w s fs)"
    by (intro save_due_succeeds) simp_all
  show second: "save_projects False now' w' (fst (snd (save_projects False now w s fs)))
             (snd (snd (save_projects False now w s fs)))
           = (False, fst (snd (save_projects False now w s fs)),
              snd (snd (save_projects False now w s fs)))"
    using first h by (intro save_twice) simp_all
  show "fs_writes (snd (snd (save_projects False now' w'
             (fst (snd (save_projects False now w s fs)))
             (snd (snd (save_projects False now w s fs)))))) = fs_writes fs + 1"
    using save_success_writes [OF first] by (simp add: second)
next
  assume h: "total_seconds_less (now - last_save_time s) (auto_save_interval s)
        \<and> total_seconds_less (now' - last_save_time s) (auto_save_interval s)"
  then have "save_projects False now w s fs = (False, s, fs)"
    by (intro save_debounced) simp
  then show "save_projects False now' w' (fst (snd (save_projects False now w s fs)))
          (snd (snd (save_projects False now w s fs)))
        = (False, s, fs)"
    using h by (simp add: save_debounced)
qed

text \<open>
  A newly constructed store saves at 0 s, which opens the data file once; the call at
  299 s is skipped, and the data file still holds the document of the first call. With
  the last save at 0 s, the calls at 1 s and at 2 s are both skipped.
\<close>

theorem C8_save_is_debounced_witness:
  "fst (save_projects False 0 (world ''20250813_120000'') store_alpha file_system0) = True
   \<and> save_projects False 299000000 (world ''20250813_120459'')
        (fst (snd (save_projects False 0 (world ''20250813_120000'') store_alpha file_system0)))
        (snd (snd (save_projects False 0 (world ''20250813_120000'') store_alpha file_system0)))
      = (False,
         fst (snd (save_projects False 0 (world ''20250813_120000'') store_alpha file_system0)),
         snd (snd (save_projects False 0 (world ''20250813_120000'') store_alpha file_system0)))
   \<and> fs_writes
        (snd (snd (save_projects False 299000000 (world ''20250813_120459'')
          (fst (snd (save_projects False 0 (world ''20250813_120000'') store_alpha file_system0)))
          (snd (snd (save_projects False 0 (world ''20250813_120000'') store_alpha file_system0))))))
      = 1
   \<and> fs_data_file
        (snd (snd (save_projects False 299000000 (world ''20250813_120459'')
          (fst (snd (save_projects False 0 (world ''20250813_120000'') store_alpha file_system0)))
          (snd (snd (save_projects False 0 (world ''20250813_120000'') store_alpha file_system0))))))
      = Some (Document (document_of_store 0 store_alpha))
   \<and> last_save_time
        (fst (snd (save_projects False 0 (world ''20250813_120000'') store_alpha file_system0)))
      = 0
   \<and> total_seconds_less 301000000 300 = ((301000000::int) < 300 * 1000000)
   \<and> save_projects False 2000000 (world ''20250813_120002'')
        (fst (snd (save_projects False 1000000 (world ''20250813_120001'')
           (store_alpha\<lparr>last_save_time := 0\<rparr>) file_system0)))
        (snd (snd (save_projects False 1000000 (world ''20250813_120001'')
           (store_alpha\<lparr>last_save_time := 0\<rparr>) file_system0)))
      = (False, store_alpha\<lparr>last_save_time := 0\<rparr>, file_system0)"
proof -
  let ?w = "world ''20250813_120000''"
  let ?first = "save_projects False 0 ?w store_alpha file_system0"
  let ?late = "store_alpha\<lparr>last_save_time := 0\<rparr>"
  note inst = C8_save_is_debounced
    [of 301000000 300 0 store_alpha "world ''20250813_120000''" file_system0 False 299000000
        "world ''20250813_120459''"]
  note inst_late = C8_save_is_debounced
    [of 301000000 300 1000000 ?late "world ''20250813_120001''" file_system0 False 2000000
        "world ''20250813_120002''"]
  have bound: "\<bar>301000000::int\<bar> < 17179869184000000"
    by simp
  have due: "\<not> total_seconds_less (0 - last_save_time store_alpha) (auto_save_interval store_alpha)
      \<and> \<not> io_mkdir_fails ?w \<and> io_write ?w = No_fault
      \<and> total_seconds_less (299000000 - 0) (auto_save_interval store_alpha)"
    by (simp add: store_alpha_def world_def total_seconds_less_values)
  have within: "total_seconds_less (1000000 - last_save_time ?late) (auto_save_interval ?late)
      \<and> total_seconds_less (2000000 - last_save_time ?late) (auto_save_interval ?late)"
    by (simp add: store_alpha_def total_seconds_less_values)
  have e: "total_seconds_less 301000000 300 = ((301000000::int) < 300 * 1000000)"
    using inst [THEN conjunct1, THEN mp, OF bound] .
  have two: "fst ?first
      \<and> save_projects False 299000000 (world ''20250813_120459'') (fst (snd ?first))
           (snd (snd ?first))
         = (False, fst (snd ?first), snd (snd ?first))
      \<and> fs_writes (snd (snd (save_projects False 299000000 (world ''20250813_120459'')
           (fst (snd ?first)) (snd (snd ?first))))) = fs_writes file_system0 + 1"
    using inst [THEN conjunct2, THEN conjunct2, THEN conjunct2, THEN conjunct2,
        THEN conjunct2, THEN conjunct1, THEN mp, OF due] .
  have r: "fst ?first"
    using two by (rule conjunct1)
  have second: "save_projects False 299000000 (world ''20250813_120459'') (fst (snd ?first))
      (snd (snd ?first)) = (False, fst (snd ?first), snd (snd ?first))"
    using two [THEN conjunct2] by (rule conjunct1)
  have writes: "fs_writes (snd (snd (save_projects False 299000000 (world ''20250813_120459'')
      (fst (snd ?first)) (snd (snd ?first))))) = fs_writes file_system0 + 1"
    using two [THEN conjunct2] by (rule conjunct2)
  have written: "fs_data_file (snd (snd ?first)) = Some (Document (document_of_store 0 store_alpha))"
    using inst [THEN conjunct2, THEN conjunct2, THEN conjunct2, THEN conjunct1, THEN mp, OF r]
    by (rule conjunct1)
  have stamp: "last_save_time (fst (snd ?first)) = 0"
    using inst [THEN conjunct2, THEN conjunct2, THEN conjunct1] r by simp
  have neither: "save_projects False 2000000 (world ''20250813_120002'')
        (fst (snd (save_projects False 1000000 (world ''20250813_120001'') ?late file_system0)))
        (snd (snd (save_projects False 1000000 (world ''20250813_120001'') ?late file_system0)))
      = (False, ?late, file_system0)"
    using inst_late [THEN conjunct2, THEN conjunct2, THEN conjunct2, THEN conjunct2,
        THEN conjunct2, THEN conjunct2, THEN mp, OF within] .
  have w1: "fs_writes (snd (snd (save_projects False 299000000 (world ''20250813_120459'')
      (fst (snd ?first)) (snd (snd ?first))))) = 1"
    using writes by (simp add: file_system0_def)
  have d1: "fs_data_file (snd (snd (save_projects False 299000000 (world ''20250813_120459'')
      (fst (snd ?first)) (snd (snd ?first))))) = Some (Document (document_of_store 0 store_alpha))"
    using written by (simp add: second)
  show ?thesis
    using r second w1 d1 stamp e neither by (intro conjI) simp_all
qed

end
